theory Spec2Isabelle
  imports Complex_Main
begin

section \<open>JavaScript strings, numbers and regular expressions\<close>

text \<open>
  A JavaScript string is modelled as a \<open>string\<close>; a \<open>char\<close> stands for one UTF-16 code
  unit below 256. \<open>isWhiteSpace\<close> lists the code units of that range that
  \<^verbatim>\<open>String.prototype.trim\<close> strips (tab, LF, VT, FF, CR, space, no-break space);
  \<open>isDigit\<close> is the class \<^verbatim>\<open>\d\<close>, and \<open>isDot\<close> the class \<^verbatim>\<open>.\<close> (everything but a
  line terminator).
\<close>

definition isWhiteSpace :: "char \<Rightarrow> bool" where
  "isWhiteSpace c = ((of_char c :: nat) \<in> set [9, 10, 11, 12, 13, 32, 160])"

definition isDigit :: "char \<Rightarrow> bool" where
  "isDigit c = (c \<in> set ''0123456789'')"

definition isDot :: "char \<Rightarrow> bool" where
  "isDot c = ((of_char c :: nat) \<notin> set [10, 13])"

definition isDigitOrComma :: "char \<Rightarrow> bool" where
  "isDigitOrComma c = (isDigit c \<or> c = CHR '','')"

definition trim :: "string \<Rightarrow> string" where
  "trim s = rev (dropWhile isWhiteSpace (rev (dropWhile isWhiteSpace s)))"

definition toLower :: "char \<Rightarrow> char" where
  "toLower c =
     (case map_of (zip ''ABCDEFGHIJKLMNOPQRSTUVWXYZ'' ''abcdefghijklmnopqrstuvwxyz'') c of
        Some l \<Rightarrow> l
      | None \<Rightarrow> c)"

text \<open>\<^verbatim>\<open>a || b\<close> on strings: the empty string is the only falsy string.\<close>

definition orElse :: "string \<Rightarrow> string \<Rightarrow> string" where
  "orElse a b = (if a = [] then b else a)"

text \<open>
  Numbers. The counters of the scraper are results of \<^verbatim>\<open>parseInt(s, 10)\<close> on strings
  made of digits only, so a number is \<open>NaN\<close> or a natural number (JavaScript agrees
  with the exact value below \<open>2^53\<close>). \<open>parseInt10\<close> reads the longest prefix of
  digits after leading white space and is \<open>NaN\<close> when there is none; \<open>orZero\<close> is
  \<^verbatim>\<open>x || 0\<close>.
\<close>

datatype number = NaN | Number nat

definition digitVal :: "char \<Rightarrow> nat" where
  "digitVal c = of_char c - 48"

definition digitsValue :: "string \<Rightarrow> nat" where
  "digitsValue ds = foldl (\<lambda>acc c. 10 * acc + digitVal c) 0 ds"

definition parseInt10 :: "string \<Rightarrow> number" where
  "parseInt10 s =
     (let ds = takeWhile isDigit (dropWhile isWhiteSpace s)
      in if ds = [] then NaN else Number (digitsValue ds))"

fun orZero :: "number \<Rightarrow> number" where
  "orZero NaN = Number 0"
| "orZero (Number n) = Number n"

text \<open>
  Regular expressions, for the constructs the scraper's patterns use. The matcher
  is a backtracking matcher in continuation-passing style, as ECMAScript specifies
  it: a greedy quantifier tries the longest repetition first, a lazy one the
  shortest, an alternative its left branch first; \<open>Grp n\<close> records the text its body
  matched as capture \<open>n\<close>. \<open>LitI\<close> is a literal under the \<^verbatim>\<open>i\<close> flag and \<open>Eos\<close> the
  anchor \<^verbatim>\<open>$\<close>.
\<close>

datatype regex =
    Lit string
  | LitI string
  | Cls "char \<Rightarrow> bool"
  | Star "char \<Rightarrow> bool"
  | Lazy "char \<Rightarrow> bool"
  | Opt regex
  | Cat regex regex
  | Alt regex regex
  | Grp nat regex
  | Eos

type_synonym captures = "nat \<Rightarrow> string option"

fun starGreedy :: "(char \<Rightarrow> bool) \<Rightarrow> string \<Rightarrow> (string \<Rightarrow> 'r option) \<Rightarrow> 'r option" where
  "starGreedy p [] k = k []"
| "starGreedy p (x # xs) k =
     (if p x then (case starGreedy p xs k of Some r \<Rightarrow> Some r | None \<Rightarrow> k (x # xs))
      else k (x # xs))"

fun starLazy :: "(char \<Rightarrow> bool) \<Rightarrow> string \<Rightarrow> (string \<Rightarrow> 'r option) \<Rightarrow> 'r option" where
  "starLazy p [] k = k []"
| "starLazy p (x # xs) k =
     (case k (x # xs) of
        Some r \<Rightarrow> Some r
      | None \<Rightarrow> if p x then starLazy p xs k else None)"

fun rmatch :: "regex \<Rightarrow> string \<Rightarrow> captures \<Rightarrow> (string \<Rightarrow> captures \<Rightarrow> 'r option) \<Rightarrow> 'r option" where
  "rmatch (Lit l) s c k = (if take (length l) s = l then k (drop (length l) s) c else None)"
| "rmatch (LitI l) s c k =
     (if map toLower (take (length l) s) = map toLower l then k (drop (length l) s) c else None)"
| "rmatch (Cls p) s c k = (case s of [] \<Rightarrow> None | x # xs \<Rightarrow> if p x then k xs c else None)"
| "rmatch (Star p) s c k = starGreedy p s (\<lambda>s'. k s' c)"
| "rmatch (Lazy p) s c k = starLazy p s (\<lambda>s'. k s' c)"
| "rmatch (Opt r) s c k = (case rmatch r s c k of Some x \<Rightarrow> Some x | None \<Rightarrow> k s c)"
| "rmatch (Cat r1 r2) s c k = rmatch r1 s c (\<lambda>s' c'. rmatch r2 s' c' k)"
| "rmatch (Alt r1 r2) s c k = (case rmatch r1 s c k of Some x \<Rightarrow> Some x | None \<Rightarrow> rmatch r2 s c k)"
| "rmatch (Grp n r) s c k =
     rmatch r s c (\<lambda>s' c'. k s' (c'(n \<mapsto> take (length s - length s') s)))"
| "rmatch Eos s c k = (if s = [] then k s c else None)"

text \<open>
  \<open>rmatchHere\<close> matches at the start of the input (a pattern that begins with \<^verbatim>\<open>^\<close>);
  \<open>rsearch\<close> is \<^verbatim>\<open>RegExp.prototype.exec\<close> of a pattern without the \<^verbatim>\<open>g\<close> flag: the match at
  the leftmost position that has one, as its captures. \<open>rtest\<close> is \<^verbatim>\<open>test\<close>.
\<close>

definition rmatchHere :: "regex \<Rightarrow> string \<Rightarrow> captures option" where
  "rmatchHere r s = rmatch r s Map.empty (\<lambda>_ c. Some c)"

fun rsearch :: "regex \<Rightarrow> string \<Rightarrow> captures option" where
  "rsearch r [] = rmatchHere r []"
| "rsearch r (x # xs) =
     (case rmatchHere r (x # xs) of Some c \<Rightarrow> Some c | None \<Rightarrow> rsearch r xs)"

definition rtest :: "regex \<Rightarrow> string \<Rightarrow> bool" where
  "rtest r s = (rsearch r s \<noteq> None)"

definition Plus :: "(char \<Rightarrow> bool) \<Rightarrow> regex" where
  "Plus p = Cat (Cls p) (Star p)"

text \<open>
  \<^verbatim>\<open>s.match(/\d+/g)\<close>: the maximal runs of digits of \<open>s\<close>, left to right (\<open>[]\<close> stands for
  the \<^verbatim>\<open>null\<close> of no match). \<^verbatim>\<open>s.replace(/,/g, "")\<close> is \<open>removeCommas\<close>.
\<close>

function digitRuns :: "string \<Rightarrow> string list" where
  "digitRuns [] = []"
| "digitRuns (c # cs) =
     (if isDigit c then takeWhile isDigit (c # cs) # digitRuns (dropWhile isDigit cs)
      else digitRuns cs)"
  by pat_completeness auto
termination
  by (relation "measure length") (auto simp: le_imp_less_Suc length_dropWhile_le)

definition removeCommas :: "string \<Rightarrow> string" where
  "removeCommas s = filter (\<lambda>c. c \<noteq> CHR '','') s"

section \<open>The date extractor\<close>

text \<open>
  The date permalink as \<open>scrapePostDate\<close> reads it: its identity, the \<^verbatim>\<open>span\<close> elements
  below it in document order, each with its \<^verbatim>\<open>textContent\<close> and the top and left of its
  bounding rectangle, and the anchor's own \<^verbatim>\<open>textContent\<close>. An absent element
  (\<^verbatim>\<open>null\<close>) is \<open>None\<close>.
\<close>

record spanEl =
  spanText :: string
  rectTop :: real
  rectLeft :: real

record anchorEl =
  anchorId :: nat
  anchorSpans :: "spanEl list"
  anchorText :: string

record glyph =
  gText :: string
  gY :: real
  gX :: real

definition singleCharSpans :: "anchorEl \<Rightarrow> spanEl list" where
  "singleCharSpans el = filter (\<lambda>sp. length (trim (spanText sp)) = 1) (anchorSpans el)"

definition toGlyph :: "spanEl \<Rightarrow> glyph" where
  "toGlyph sp = \<lparr>gText = spanText sp, gY = rectTop sp, gX = rectLeft sp\<rparr>"

definition compareSpans :: "glyph \<Rightarrow> glyph \<Rightarrow> real" where
  "compareSpans a b = (if \<bar>gY a - gY b\<bar> > 5 then gY a - gY b else gX a - gX b)"

text \<open>
  \<^verbatim>\<open>Array.prototype.sort\<close> with a comparator is stable; \<open>sortBy\<close> is the stable insertion
  sort, which is the order ECMAScript prescribes whenever the comparator is a
  consistent ordering of the elements (otherwise the order is left to the engine).
\<close>

fun insertBy :: "('a \<Rightarrow> 'a \<Rightarrow> real) \<Rightarrow> 'a \<Rightarrow> 'a list \<Rightarrow> 'a list" where
  "insertBy cmp x [] = [x]"
| "insertBy cmp x (y # ys) = (if cmp x y \<le> 0 then x # y # ys else y # insertBy cmp x ys)"

definition sortBy :: "('a \<Rightarrow> 'a \<Rightarrow> real) \<Rightarrow> 'a list \<Rightarrow> 'a list" where
  "sortBy cmp xs = foldr (insertBy cmp) xs []"

definition hasDigit :: "string \<Rightarrow> bool" where
  "hasDigit s = rtest (Cls isDigit) s"

text \<open>
  The callback of \<^verbatim>\<open>reduce((acc, current, index, array) => ..., "")\<close> and the reduction
  itself, over the indices of the array.
\<close>

definition joinStep :: "glyph list \<Rightarrow> string \<Rightarrow> nat \<Rightarrow> string" where
  "joinStep array acc index =
     (let currentText = gText (array ! index)
      in if index = 0 then currentText
         else (let prevText = gText (array ! (index - 1))
               in if hasDigit prevText \<noteq> hasDigit currentText
                  then acc @ '' '' @ currentText
                  else acc @ currentText))"

definition dateParts :: "glyph list \<Rightarrow> string" where
  "dateParts array = foldl (joinStep array) [] [0..<length array]"

definition sortedSpans :: "anchorEl \<Rightarrow> glyph list" where
  "sortedSpans el = sortBy compareSpans (map toGlyph (singleCharSpans el))"

definition firstLine :: "glyph list \<Rightarrow> glyph list" where
  "firstLine spans =
     (let firstLineY = gY (spans ! 0)
      in filter (\<lambda>span. \<bar>gY span - firstLineY\<bar> < 5) spans)"

definition scrapePostDate :: "anchorEl option \<Rightarrow> string" where
  "scrapePostDate datePermalink =
     (case datePermalink of
        None \<Rightarrow> ''DATE_NOT_FOUND''
      | Some el \<Rightarrow>
          if length (singleCharSpans el) = 0
          then orElse (trim (anchorText el)) ''DATE_NOT_FOUND''
          else if length (sortedSpans el) > 0
               then dateParts (firstLine (sortedSpans el))
               else ''DATE_NOT_FOUND'')"

text \<open>
  The reconstruction in the spec's words: the fragments are concatenated, with a
  separating space exactly where a digit-class fragment meets a fragment that is not
  of the digit class. A fragment is of the digit class when it holds a digit.
\<close>

definition digitClass :: "string \<Rightarrow> bool" where
  "digitClass t = list_ex isDigit t"

fun joinFragments :: "string list \<Rightarrow> string" where
  "joinFragments [] = []"
| "joinFragments [t] = t"
| "joinFragments (t # u # ts) =
     t @ (if digitClass t \<noteq> digitClass u then '' '' else []) @ joinFragments (u # ts)"

section \<open>The author and location extractor\<close>

text \<open>
  The header as \<open>scrapePostAuthorAndMeta\<close> reads it: the result of
  \<^verbatim>\<open>querySelector("h2 a")\<close> and of \<^verbatim>\<open>querySelectorAll("a")\<close>, each link with its identity
  and its \<^verbatim>\<open>textContent\<close>. Identities are those of the elements of the document: a link
  and the date permalink of one identity are one element.
\<close>

record linkEl =
  linkId :: nat
  linkText :: string

record headerEl =
  headerAuthorLink :: "linkEl option"
  headerLinks :: "linkEl list"

record postMeta =
  postAuthor :: string
  postLocation :: string

definition scrapePostAuthorAndMeta :: "headerEl option \<Rightarrow> anchorEl option \<Rightarrow> postMeta" where
  "scrapePostAuthorAndMeta headerDiv datePermalink =
     (case headerDiv of
        None \<Rightarrow> \<lparr>postAuthor = ''AUTHOR_NOT_FOUND'', postLocation = ''LOCATION_NOT_FOUND''\<rparr>
      | Some h \<Rightarrow>
          (let authorLink = headerAuthorLink h;
               author = (case authorLink of
                           Some a \<Rightarrow> trim (linkText a)
                         | None \<Rightarrow> ''AUTHOR_NOT_FOUND'');
               locationLink = find (\<lambda>a. Some (linkId a) \<noteq> map_option linkId authorLink
                                          \<and> Some (linkId a) \<noteq> map_option anchorId datePermalink
                                          \<and> length (trim (linkText a)) > 0)
                                   (headerLinks h)
           in \<lparr>postAuthor = author,
               postLocation = (case locationLink of
                                 Some l \<Rightarrow> trim (linkText l)
                               | None \<Rightarrow> ''LOCATION_NOT_FOUND'')\<rparr>))"

section \<open>The engagement extractor\<close>

text \<open>
  The stats container as \<open>scrapeEngagement\<close> reads it: its \<^verbatim>\<open>innerText\<close>, and the
  \<^verbatim>\<open>innerText\<close> of the first element below it whose \<^verbatim>\<open>aria-label\<close> contains
  "See who reacted" (\<open>None\<close> when \<^verbatim>\<open>querySelector\<close> finds none).
\<close>

record statsEl =
  statsInnerText :: string
  likersElement :: "string option"

record likesRec =
  firstLiker :: string
  otherCount :: number

record engagement =
  likes :: likesRec
  totalComments :: number

definition hasComment :: "string \<Rightarrow> bool" where
  "hasComment s = rtest (LitI ''comment'') s"

text \<open>The pattern \<^verbatim>\<open>/(.+) and ([\d,]+) others?/\<close> and the pattern \<^verbatim>\<open>/^\d+$/\<close>.\<close>

definition likersPattern :: regex where
  "likersPattern =
     Cat (Grp 1 (Plus isDot))
      (Cat (Lit '' and '')
        (Cat (Grp 2 (Plus isDigitOrComma))
          (Cat (Lit '' other'') (Opt (Lit ''s'')))))"

definition numberOnly :: "string \<Rightarrow> bool" where
  "numberOnly s = (rmatchHere (Cat (Plus isDigit) Eos) s \<noteq> None)"

text \<open>
  The first pass, on the numbers of the text: the likes record and the total of
  comments it leaves.
\<close>

definition countPass :: "string \<Rightarrow> engagement" where
  "countPass statsText =
     (let numbers = digitRuns statsText;
          start = \<lparr>likes = \<lparr>firstLiker = [], otherCount = Number 0\<rparr>, totalComments = Number 0\<rparr>
      in if length numbers > 0
         then (let first = orZero (parseInt10 (numbers ! 0))
               in if length numbers > 1
                  then \<lparr>likes = \<lparr>firstLiker = [], otherCount = first\<rparr>,
                        totalComments = orZero (parseInt10 (numbers ! (length numbers - 1)))\<rparr>
                  else if hasComment statsText
                       then \<lparr>likes = \<lparr>firstLiker = [], otherCount = Number 0\<rparr>,
                             totalComments = first\<rparr>
                       else \<lparr>likes = \<lparr>firstLiker = [], otherCount = first\<rparr>,
                             totalComments = Number 0\<rparr>)
         else start)"

text \<open>The second pass, on the element labelled "See who reacted".\<close>

definition labelPass :: "string option \<Rightarrow> likesRec \<Rightarrow> likesRec" where
  "labelPass likersEl l =
     (case likersEl of
        None \<Rightarrow> l
      | Some innerText \<Rightarrow>
          (let likersText = trim innerText
           in if likersText = [] then l
              else (case rsearch likersPattern likersText of
                      Some m \<Rightarrow>
                        \<lparr>firstLiker = trim (the (m 1)),
                         otherCount = parseInt10 (removeCommas (the (m 2)))\<rparr>
                    | None \<Rightarrow>
                        if \<not> numberOnly likersText then l\<lparr>firstLiker := likersText\<rparr> else l)))"

definition scrapeEngagement :: "statsEl option \<Rightarrow> engagement" where
  "scrapeEngagement statsDiv =
     (case statsDiv of
        None \<Rightarrow> \<lparr>likes = \<lparr>firstLiker = [], otherCount = Number 0\<rparr>, totalComments = Number 0\<rparr>
      | Some st \<Rightarrow>
          (let e = countPass (statsInnerText st)
           in e\<lparr>likes := labelPass (likersElement st) (likes e)\<rparr>))"

section \<open>The comment and avatar extractor\<close>

subsection \<open>The avatar map\<close>

text \<open>
  \<^verbatim>\<open>avatars\<close> is a plain object \<^verbatim>\<open>{}\<close>. Its own properties hold a string or \<^verbatim>\<open>null\<close>
  (\<open>None\<close>); reading a name it does not own falls through to \<^verbatim>\<open>Object.prototype\<close>, whose
  properties are functions and objects and so are truthy. Assigning a string to
  \<^verbatim>\<open>__proto__\<close> is ignored by the inherited setter and assigning \<^verbatim>\<open>null\<close> to it removes the
  prototype; \<open>protoObject\<close> says whether the prototype is still there. The own
  properties are what \<^verbatim>\<open>JSON.stringify\<close> writes.
\<close>

definition objectPrototypeKeys :: "string list" where
  "objectPrototypeKeys =
     [''constructor'', ''hasOwnProperty'', ''isPrototypeOf'', ''propertyIsEnumerable'',
      ''toLocaleString'', ''toString'', ''valueOf'', ''__proto__'', ''__defineGetter__'',
      ''__defineSetter__'', ''__lookupGetter__'', ''__lookupSetter__'']"

record jsObject =
  ownProps :: "string \<Rightarrow> string option option"
  protoObject :: bool

definition emptyObject :: jsObject where
  "emptyObject = \<lparr>ownProps = Map.empty, protoObject = True\<rparr>"

text \<open>\<open>truthyProp obj k\<close> is the truth value of \<^verbatim>\<open>obj[k]\<close>; \<open>setProp obj k v\<close> is \<^verbatim>\<open>obj[k] = v\<close>.\<close>

definition truthyProp :: "jsObject \<Rightarrow> string \<Rightarrow> bool" where
  "truthyProp obj k =
     (case ownProps obj k of
        Some v \<Rightarrow> (case v of Some s \<Rightarrow> s \<noteq> [] | None \<Rightarrow> False)
      | None \<Rightarrow> protoObject obj \<and> k \<in> set objectPrototypeKeys)"

definition setProp :: "jsObject \<Rightarrow> string \<Rightarrow> string option \<Rightarrow> jsObject" where
  "setProp obj k v =
     (if k = ''__proto__'' \<and> protoObject obj
      then (case v of None \<Rightarrow> obj\<lparr>protoObject := False\<rparr> | Some _ \<Rightarrow> obj)
      else obj\<lparr>ownProps := (ownProps obj)(k \<mapsto> v)\<rparr>)"

definition fallbackUrl :: string where
  "fallbackUrl = ''https://placehold.co/32x32/FFFFFF/000000?text=A''"

subsection \<open>Reading the articles\<close>

text \<open>
  A comment article as the extractor reads it: the identities of the element itself,
  its parent and so on up to the root (\<open>parentChain\<close>), its \<^verbatim>\<open>aria-label\<close> attribute, the
  \<^verbatim>\<open>innerText\<close> of the first \<^verbatim>\<open>div[dir="auto"]\<close> below it, and the \<^verbatim>\<open>xlink:href\<close> of the first
  \<^verbatim>\<open>image\<close> below it (\<open>None\<close>: no such element, \<open>Some None\<close>: no such attribute). The comments
  container has its identity and its articles in document order.
\<close>

record articleEl =
  parentChain :: "nat list"
  ariaLabel :: "string option"
  messageEl :: "string option"
  avatarHref :: "string option option"

record commentsEl =
  commentsId :: nat
  articles :: "articleEl list"

record rawComment =
  rawName :: string
  rawMessage :: string
  rawDepth :: nat

text \<open>The loop that counts the steps from the article up to the comments container.\<close>

fun countDepth :: "nat \<Rightarrow> nat list \<Rightarrow> nat \<Rightarrow> nat" where
  "countDepth target [] depth = depth"
| "countDepth target (currentParent # up) depth =
     (if currentParent \<noteq> target then countDepth target up (depth + 1) else depth)"

text \<open>The pattern \<^verbatim>\<open>/by (.*?)(?: to .*'s comment| \d+)/\<close>.\<close>

definition authorPattern :: regex where
  "authorPattern =
     Cat (Lit ''by '')
      (Cat (Grp 1 (Lazy isDot))
        (Alt (Cat (Lit '' to '') (Cat (Star isDot) (Lit (CHR 0x27 # ''s comment''))))
             (Cat (Lit '' '') (Plus isDigit))))"

definition parseAuthor :: "string \<Rightarrow> string option" where
  "parseAuthor label =
     (case rsearch authorPattern label of
        Some m \<Rightarrow> Some (trim (the (m 1)))
      | None \<Rightarrow> None)"

text \<open>
  The constants \<^verbatim>\<open>authorName\<close>, \<^verbatim>\<open>message\<close> and \<^verbatim>\<open>avatarImage\<close> of one article; \<open>None\<close> is
  \<^verbatim>\<open>null\<close> (or \<^verbatim>\<open>undefined\<close>).
\<close>

definition authorNameOf :: "articleEl \<Rightarrow> string option" where
  "authorNameOf commentEl = parseAuthor (case ariaLabel commentEl of Some l \<Rightarrow> l | None \<Rightarrow> [])"

definition messageOf :: "articleEl \<Rightarrow> string option" where
  "messageOf commentEl =
     (case (authorNameOf commentEl, messageEl commentEl) of
        (Some authorName, Some innerText) \<Rightarrow>
          if authorName \<noteq> [] then Some (trim innerText) else None
      | _ \<Rightarrow> None)"

definition avatarImageOf :: "articleEl \<Rightarrow> string option" where
  "avatarImageOf commentEl =
     (case avatarHref commentEl of Some (Some href) \<Rightarrow> Some href | _ \<Rightarrow> None)"

text \<open>
  One round of \<^verbatim>\<open>Array.from(commentArticles).map(...)\<close> followed by \<^verbatim>\<open>filter(Boolean)\<close>: the
  avatars recorded so far and the raw comments kept so far, after one more article.
\<close>

definition scanArticle ::
    "commentsEl \<Rightarrow> jsObject \<times> rawComment list \<Rightarrow> articleEl \<Rightarrow> jsObject \<times> rawComment list" where
  "scanArticle commentsDiv acc commentEl =
     (case acc of (avatars, kept) \<Rightarrow>
        (case (authorNameOf commentEl, messageOf commentEl) of
           (Some authorName, Some msg) \<Rightarrow>
             if msg \<noteq> []
             then (case avatarImageOf commentEl of
                     Some avatarImage \<Rightarrow>
                       if avatarImage \<noteq> [] \<and> \<not> truthyProp avatars authorName
                       then setProp avatars authorName (Some avatarImage)
                       else avatars
                   | None \<Rightarrow> avatars,
                   kept @ [\<lparr>rawName = authorName, rawMessage = msg,
                            rawDepth = countDepth (commentsId commentsDiv) (parentChain commentEl) 0\<rparr>])
             else (avatars, kept)
         | _ \<Rightarrow> (avatars, kept)))"

subsection \<open>Nesting the comments\<close>

text \<open>
  The comment objects are mutable and shared: \<^verbatim>\<open>commentStack\<close> holds references to the
  objects that \<^verbatim>\<open>nestedComments\<close> and the \<^verbatim>\<open>replies\<close> arrays hold too. They live in a store,
  a list of objects addressed by position; an array of comments is the list of their
  addresses. The \<open>i\<close>-th raw comment's object is at address \<open>i\<close>. \<open>replies = None\<close> is an
  object without the property.
\<close>

record commentObject =
  name :: string
  message :: string
  replies :: "nat list option"

type_synonym store = "commentObject list"

record nesting =
  objects :: store
  nestedComments :: "nat list"
  commentStack :: "(nat \<times> nat) list"

definition allocate :: "rawComment list \<Rightarrow> store" where
  "allocate raws = map (\<lambda>r. \<lparr>name = rawName r, message = rawMessage r, replies = None\<rparr>) raws"

text \<open>\<^verbatim>\<open>if (!parent.replies) parent.replies = []; parent.replies.push(c)\<close>.\<close>

definition pushReply :: "commentObject \<Rightarrow> nat \<Rightarrow> commentObject" where
  "pushReply parentComment c =
     parentComment\<lparr>replies := Some ((case replies parentComment of None \<Rightarrow> [] | Some rs \<Rightarrow> rs) @ [c])\<rparr>"

text \<open>
  One round of \<^verbatim>\<open>rawComments.forEach\<close>, on the item whose object is at address \<open>c\<close>. The
  stack is kept with its top first; its entries are an address and a depth. (An
  address on the stack is the address of an earlier item, so the update is in range.)
\<close>

definition nestStep :: "nesting \<Rightarrow> nat \<times> nat \<Rightarrow> nesting" where
  "nestStep st item =
     (case item of (c, depth) \<Rightarrow>
        (let stack = dropWhile (\<lambda>(_, d). depth \<le> d) (commentStack st)
         in case stack of
              (parent, _) # _ \<Rightarrow>
                st\<lparr>objects := (objects st)[parent := pushReply (objects st ! parent) c],
                   commentStack := (c, depth) # stack\<rparr>
            | [] \<Rightarrow>
                st\<lparr>nestedComments := nestedComments st @ [c],
                   commentStack := (c, depth) # stack\<rparr>))"

definition nestAll :: "rawComment list \<Rightarrow> nesting" where
  "nestAll raws =
     foldl nestStep \<lparr>objects = allocate raws, nestedComments = [], commentStack = []\<rparr>
       (enumerate 0 (map rawDepth raws))"

text \<open>
  \<open>removeEmptyReplies\<close> walks the store along the \<open>replies\<close> arrays. Each level of the
  recursion takes one unit of fuel, and \<open>None\<close> is a walk that ran out of it.
\<close>

fun removeEmptyReplies :: "nat \<Rightarrow> store \<Rightarrow> nat list \<Rightarrow> store option" where
  "removeEmptyReplies fuel h [] = Some h"
| "removeEmptyReplies 0 h (c # cs) = None"
| "removeEmptyReplies (Suc fuel) h (c # cs) =
     (if c < length h
      then (case replies (h ! c) of
              Some (r # rs) \<Rightarrow>
                (case removeEmptyReplies fuel h (r # rs) of
                   None \<Rightarrow> None
                 | Some h' \<Rightarrow> removeEmptyReplies (Suc fuel) h' cs)
            | _ \<Rightarrow> removeEmptyReplies (Suc fuel) (h[c := (h ! c)\<lparr>replies := None\<rparr>]) cs)
      else None)"

text \<open>
  The comments as \<^verbatim>\<open>JSON.stringify\<close> writes them and the viewer reads them back: a tree,
  whose \<open>replies\<close> are absent (\<open>None\<close>) or a list.
\<close>

datatype comment = Comment string string "comment list option"

fun stringify :: "nat \<Rightarrow> store \<Rightarrow> nat list \<Rightarrow> comment list option" where
  "stringify fuel h [] = Some []"
| "stringify 0 h (c # cs) = None"
| "stringify (Suc fuel) h (c # cs) =
     (if c < length h
      then (case (case replies (h ! c) of
                    None \<Rightarrow> Some None
                  | Some rs \<Rightarrow> map_option Some (stringify fuel h rs)) of
              None \<Rightarrow> None
            | Some r \<Rightarrow>
                map_option ((#) (Comment (name (h ! c)) (message (h ! c)) r))
                  (stringify (Suc fuel) h cs))
      else None)"

text \<open>
  The second half of \<open>scrapeCommentsAndAvatars\<close>: the nested comments of the raw
  comments, after \<open>removeEmptyReplies\<close>; and the tree that is exported for them.
\<close>

definition nestComments :: "rawComment list \<Rightarrow> (store \<times> nat list) option" where
  "nestComments raws =
     (let st = nestAll raws
      in map_option (\<lambda>h. (h, nestedComments st))
           (removeEmptyReplies (Suc (length (objects st))) (objects st) (nestedComments st)))"

definition commentTree :: "rawComment list \<Rightarrow> comment list option" where
  "commentTree raws =
     (case nestComments raws of
        None \<Rightarrow> None
      | Some (h, roots) \<Rightarrow> stringify (Suc (length h)) h roots)"

text \<open>
  The invariant of the exported tree: no comment anywhere in the forest has a
  \<open>replies\<close> list that is empty.
\<close>

fun noEmptyReplies :: "comment list \<Rightarrow> bool" where
  "noEmptyReplies [] = True"
| "noEmptyReplies (Comment n m r # cs) =
     ((case r of None \<Rightarrow> True | Some rs \<Rightarrow> rs \<noteq> [] \<and> noEmptyReplies rs) \<and> noEmptyReplies cs)"

subsection \<open>The extractor\<close>

text \<open>
  \<open>authorAvatarImage\<close> is what the document-wide query for the post author's avatar
  finds: \<open>None\<close> when there is no such \<^verbatim>\<open>image\<close>, else its \<^verbatim>\<open>xlink:href\<close> attribute.
\<close>

record scraped =
  commentStore :: store
  comments :: "nat list"
  avatars :: jsObject

definition seedAvatars :: "string option option \<Rightarrow> string \<Rightarrow> jsObject" where
  "seedAvatars authorAvatarImage postAuthorName =
     (case authorAvatarImage of
        Some href \<Rightarrow>
          if postAuthorName \<noteq> ''AUTHOR_NOT_FOUND''
          then setProp emptyObject postAuthorName href
          else emptyObject
      | None \<Rightarrow> emptyObject)"

definition scrapeCommentsAndAvatars ::
    "commentsEl option \<Rightarrow> string option option \<Rightarrow> string \<Rightarrow> scraped option" where
  "scrapeCommentsAndAvatars commentsDiv authorAvatarImage postAuthorName =
     (case commentsDiv of
        None \<Rightarrow> Some \<lparr>commentStore = [], comments = [], avatars = emptyObject\<rparr>
      | Some container \<Rightarrow>
          (let scanned = foldl (scanArticle container)
                           (seedAvatars authorAvatarImage postAuthorName, []) (articles container);
               rawComments = snd scanned
           in if length rawComments = 0
              then Some \<lparr>commentStore = [], comments = [],
                         avatars = setProp (fst scanned) ''fallback'' (Some fallbackUrl)\<rparr>
              else (case nestComments rawComments of
                      None \<Rightarrow> None
                    | Some (h, roots) \<Rightarrow>
                        Some \<lparr>commentStore = h, comments = roots,
                              avatars = setProp (fst scanned) ''fallback'' (Some fallbackUrl)\<rparr>)))"

text \<open>
  What the returned avatar map holds under a name: \<open>None\<close> when it has no such
  property (or nothing was returned), \<open>Some None\<close> for \<^verbatim>\<open>null\<close>, else the URL.
\<close>

definition avatarOf :: "scraped option \<Rightarrow> string \<Rightarrow> string option option" where
  "avatarOf res k = (case res of Some r \<Rightarrow> ownProps (avatars r) k | None \<Rightarrow> None)"

text \<open>
  An article is a parsed comment by \<open>n\<close> when its author name is \<open>n\<close> and its message
  is kept; it carries an avatar when its image has a URL that is not empty.
\<close>

definition parsedBy :: "articleEl \<Rightarrow> string \<Rightarrow> bool" where
  "parsedBy commentEl n =
     (authorNameOf commentEl = Some n
      \<and> (case messageOf commentEl of Some msg \<Rightarrow> msg \<noteq> [] | None \<Rightarrow> False))"

definition carriesAvatar :: "articleEl \<Rightarrow> bool" where
  "carriesAvatar commentEl =
     (case avatarImageOf commentEl of Some u \<Rightarrow> u \<noteq> [] | None \<Rightarrow> False)"

section \<open>The viewer\<close>

text \<open>
  A flattened comment is \<^verbatim>\<open>{...comment, level}\<close>. \<open>flattenComments\<close> is called with the
  level 0 for the comments of the post.
\<close>

record flatComment =
  flatName :: string
  flatMessage :: string
  flatReplies :: "comment list option"
  level :: nat

fun flattenComments :: "comment list \<Rightarrow> nat \<Rightarrow> flatComment list" where
  "flattenComments [] lvl = []"
| "flattenComments (Comment n m r # cs) lvl =
     \<lparr>flatName = n, flatMessage = m, flatReplies = r, level = lvl\<rparr>
       # (case r of
            Some (x # xs) \<Rightarrow> flattenComments (x # xs) (lvl + 1)
          | _ \<Rightarrow> [])
       @ flattenComments cs lvl"

text \<open>
  Rebuilding from the flattened form, in the spec's words: each flattened comment is
  read as a raw comment record, its recorded level as the depth.
\<close>

definition rawOfFlat :: "flatComment \<Rightarrow> rawComment" where
  "rawOfFlat f = \<lparr>rawName = flatName f, rawMessage = flatMessage f, rawDepth = level f\<rparr>"

text \<open>
  The state of the page: the flattened list, the index, and the children of the
  comments container and of the overlay container. An element is known by the
  function that made it and the comment it was made for (for a post record of the
  exported schema, making it does not throw); scrolling an element into view
  changes nothing of this state. Reading the flattened list outside its range gives
  \<^verbatim>\<open>undefined\<close>, and making an overlay element of that throws.
\<close>

datatype element = CommentElement flatComment | OverlayCommentElement flatComment

datatype error = TypeError

record viewer =
  flatCommentList :: "flatComment list"
  currentCommentIndex :: nat
  commentsContainer :: "element list"
  overlayCommentsContainer :: "element list"
  commentCounter :: nat

definition updateCommentCounter :: "viewer \<Rightarrow> viewer" where
  "updateCommentCounter v = v\<lparr>commentCounter := currentCommentIndex v\<rparr>"

definition updateOverlayComments :: "viewer \<Rightarrow> error + viewer" where
  "updateOverlayComments v =
     (let v1 = v\<lparr>overlayCommentsContainer := []\<rparr>
      in if currentCommentIndex v1 = 0 then Inr v1
         else if currentCommentIndex v1 - 1 < length (flatCommentList v1)
              then Inr (v1\<lparr>overlayCommentsContainer :=
                            [OverlayCommentElement (flatCommentList v1 ! (currentCommentIndex v1 - 1))]\<rparr>)
              else Inl TypeError)"

definition handleNextComment :: "bool \<Rightarrow> viewer \<Rightarrow> error + viewer" where
  "handleNextComment shouldScroll v =
     (if currentCommentIndex v < length (flatCommentList v)
      then (let commentElement = CommentElement (flatCommentList v ! currentCommentIndex v);
                v1 = v\<lparr>commentsContainer := commentsContainer v @ [commentElement]\<rparr>;
                v2 = v1\<lparr>currentCommentIndex := currentCommentIndex v1 + 1\<rparr>
            in updateOverlayComments (updateCommentCounter v2))
      else Inr v)"

definition handlePreviousComment :: "viewer \<Rightarrow> error + viewer" where
  "handlePreviousComment v =
     (if currentCommentIndex v > 0
      then (let v1 = v\<lparr>commentsContainer := butlast (commentsContainer v)\<rparr>;
                v2 = v1\<lparr>currentCommentIndex := currentCommentIndex v1 - 1\<rparr>
            in updateOverlayComments (updateCommentCounter v2))
      else Inr v)"

text \<open>
  The page after the data is loaded (\<open>container\<close>, \<open>overlay\<close> and \<open>counter\<close> are what the
  document holds at that time), and a run of forward and backward steps, which stops
  at the first exception.
\<close>

definition loaded :: "comment list \<Rightarrow> element list \<Rightarrow> element list \<Rightarrow> nat \<Rightarrow> viewer" where
  "loaded postComments container overlay counter =
     \<lparr>flatCommentList = flattenComments postComments 0, currentCommentIndex = 0,
      commentsContainer = container, overlayCommentsContainer = overlay,
      commentCounter = counter\<rparr>"

datatype step = NextComment bool | PreviousComment

fun stepViewer :: "step \<Rightarrow> viewer \<Rightarrow> error + viewer" where
  "stepViewer (NextComment shouldScroll) v = handleNextComment shouldScroll v"
| "stepViewer PreviousComment v = handlePreviousComment v"

fun runSteps :: "step list \<Rightarrow> viewer \<Rightarrow> error + viewer" where
  "runSteps [] v = Inr v"
| "runSteps (s # ss) v = (case stepViewer s v of Inl e \<Rightarrow> Inl e | Inr v' \<Rightarrow> runSteps ss v')"

section \<open>Example pages\<close>

text \<open>
  Three comment articles: a comment by Bob, a comment by Ann with the avatar \<open>a1.png\<close>,
  and a reply by Ann, nested in her comment, with the avatar \<open>a2.png\<close>; and two
  comments containers (of identity 1) that hold them in document order.
\<close>

definition annFirst :: articleEl where
  "annFirst = \<lparr>parentChain = [11, 10, 1, 0], ariaLabel = Some ''Comment by Ann 5 hours ago'',
               messageEl = Some ''Nice photo'', avatarHref = Some (Some ''a1.png'')\<rparr>"

definition bobComment :: articleEl where
  "bobComment = \<lparr>parentChain = [5, 4, 1, 0], ariaLabel = Some ''Comment by Bob 6 hours ago'',
                 messageEl = Some ''Agreed'', avatarHref = Some (Some ''b.png'')\<rparr>"

definition annSecond :: articleEl where
  "annSecond = \<lparr>parentChain = [13, 12, 11, 10, 1, 0],
                ariaLabel = Some (''Reply by Ann to Ann'' @ [CHR 0x27] @ ''s comment 2 hours ago''),
                messageEl = Some ''Thanks'', avatarHref = Some (Some ''a2.png'')\<rparr>"

definition bobAnnAnn :: commentsEl where
  "bobAnnAnn = \<lparr>commentsId = 1, articles = [bobComment, annFirst, annSecond]\<rparr>"

definition annAnn :: commentsEl where
  "annAnn = \<lparr>commentsId = 1, articles = [annFirst, annSecond]\<rparr>"

section \<open>Notions for the proofs\<close>


text \<open>
  The invariant of the nesting loop before the item at address \<open>i\<close>: every \<open>replies\<close>
  array of the store is non-empty and holds addresses above its owner's and below
  \<open>i\<close>, and so do the top-level array and the stack.
\<close>

definition wfStore :: "nat \<Rightarrow> store \<Rightarrow> bool" where
  "wfStore i h =
     (\<forall>p < length h. \<forall>rs. replies (h ! p) = Some rs \<longrightarrow> rs \<noteq> [] \<and> (\<forall>r \<in> set rs. p < r \<and> r < i))"

definition nestingInv :: "nat \<Rightarrow> nesting \<Rightarrow> bool" where
  "nestingInv i st =
     (wfStore i (objects st) \<and> (\<forall>c \<in> set (nestedComments st). c < i)
      \<and> (\<forall>e \<in> set (commentStack st). fst e < i))"

text \<open>
  A forest laid out in the store in pre-order from address \<open>a\<close>: \<open>kids\<close> are the replies
  the viewer descends into, \<open>nodes\<close> counts the comments, \<open>rootsAt\<close> gives the addresses
  of the roots, \<open>layout\<close> the objects with their \<open>replies\<close> arrays, and \<open>fresh\<close> the objects
  before any nesting.
\<close>

definition kids :: "comment list option \<Rightarrow> comment list" where
  "kids r = (case r of Some (x # xs) \<Rightarrow> x # xs | _ \<Rightarrow> [])"

fun nodes :: "comment list \<Rightarrow> nat" where
  "nodes [] = 0"
| "nodes (Comment n m r # cs) =
     Suc ((case r of Some (x # xs) \<Rightarrow> nodes (x # xs) | _ \<Rightarrow> 0) + nodes cs)"

fun rootsAt :: "nat \<Rightarrow> comment list \<Rightarrow> nat list" where
  "rootsAt a [] = []"
| "rootsAt a (c # cs) = a # rootsAt (a + nodes [c]) cs"

fun layout :: "nat \<Rightarrow> comment list \<Rightarrow> store" where
  "layout a [] = []"
| "layout a (Comment n m r # cs) =
     \<lparr>name = n, message = m,
      replies = (case r of Some (x # xs) \<Rightarrow> Some (rootsAt (Suc a) (x # xs)) | _ \<Rightarrow> None)\<rparr>
       # (case r of Some (x # xs) \<Rightarrow> layout (Suc a) (x # xs) | _ \<Rightarrow> [])
       @ layout (Suc a + (case r of Some (x # xs) \<Rightarrow> nodes (x # xs) | _ \<Rightarrow> 0)) cs"

fun fresh :: "comment list \<Rightarrow> store" where
  "fresh [] = []"
| "fresh (Comment n m r # cs) =
     \<lparr>name = n, message = m, replies = None\<rparr>
       # (case r of Some (x # xs) \<Rightarrow> fresh (x # xs) | _ \<Rightarrow> []) @ fresh cs"

text \<open>
  Attaching the roots of a forest to what is below them: to the object on top of
  the remaining stack \<open>S\<close>, or to the top level when \<open>S\<close> is empty.
\<close>

definition addReplies :: "commentObject \<Rightarrow> nat list \<Rightarrow> commentObject" where
  "addReplies obj rs =
     (if rs = [] then obj
      else obj\<lparr>replies := Some ((case replies obj of None \<Rightarrow> [] | Some xs \<Rightarrow> xs) @ rs)\<rparr>)"

definition attachPre :: "(nat \<times> nat) list \<Rightarrow> nat list \<Rightarrow> store \<Rightarrow> store" where
  "attachPre S roots pre =
     (case S of [] \<Rightarrow> pre | (p, _) # _ \<Rightarrow> pre[p := addReplies (pre ! p) roots])"

definition attachTop :: "(nat \<times> nat) list \<Rightarrow> nat list \<Rightarrow> nat list \<Rightarrow> nat list" where
  "attachTop S roots N = (case S of [] \<Rightarrow> N @ roots | _ \<Rightarrow> N)"

definition parentOk :: "(nat \<times> nat) list \<Rightarrow> nat \<Rightarrow> nat \<Rightarrow> bool" where
  "parentOk S lvl a = (case S of [] \<Rightarrow> True | (p, dp) # _ \<Rightarrow> dp < lvl \<and> p < a)"

text \<open>
  While the prototype is in place the avatar map owns no \<^verbatim>\<open>__proto__\<close> property.
\<close>

definition protoInv :: "jsObject \<Rightarrow> bool" where
  "protoInv obj = (protoObject obj \<longrightarrow> ownProps obj ''__proto__'' = None)"

section \<open>Properties of the field extractors\<close>

subsection \<open>Digits, numbers and the join of fragments\<close>





lemma rsearch_Cls: "rsearch (Cls p) s = (if list_ex p s then Some Map.empty else None)"
  by (induction s) (auto simp: rmatchHere_def)

lemma hasDigit_digitClass: "hasDigit s = digitClass s"
  by (simp add: hasDigit_def digitClass_def rtest_def rsearch_Cls)

lemma joinFragments_snoc:
  "joinFragments (xs @ [a, b]) =
     joinFragments (xs @ [a]) @ (if digitClass a \<noteq> digitClass b then '' '' else []) @ b"
  by (induction xs rule: joinFragments.induct) simp_all

text \<open>The reduction over the first \<open>k + 1\<close> indices has joined the first \<open>k + 1\<close> texts.\<close>

lemma dateParts_prefix:
  "Suc k \<le> length array \<Longrightarrow>
     foldl (joinStep array) [] [0..<Suc k] = joinFragments (map gText (take (Suc k) array))"
proof (induction k)
  case 0
  then have "take (Suc 0) array = [array ! 0]"
    by (cases array) simp_all
  then show ?case by (simp add: joinStep_def)
next
  case (Suc k)
  then have k: "Suc k \<le> length array" and k': "Suc k < length array" and k'': "k < length array"
    by simp_all
  have tk: "take (Suc (Suc k)) array = take k array @ [array ! k, array ! Suc k]"
    using k' k'' by (simp add: take_Suc_conv_app_nth)
  have tk': "take (Suc k) array = take k array @ [array ! k]"
    using k'' by (simp add: take_Suc_conv_app_nth)
  have "foldl (joinStep array) [] [0..<Suc (Suc k)]
        = joinStep array (foldl (joinStep array) [] [0..<Suc k]) (Suc k)"
    by simp
  also have "\<dots> = joinStep array (joinFragments (map gText (take (Suc k) array))) (Suc k)"
    using Suc.IH [OF k] by simp
  also have "\<dots> = joinFragments (map gText (take (Suc (Suc k)) array))"
    unfolding tk by (simp add: joinStep_def tk' joinFragments_snoc hasDigit_digitClass)
  finally show ?case .
qed

lemma dateParts_joinFragments: "dateParts array = joinFragments (map gText array)"
proof (cases array)
  case Nil
  then show ?thesis by (simp add: dateParts_def)
next
  case (Cons g gs)
  then have "Suc (length gs) \<le> length array" by simp
  from dateParts_prefix [OF this] show ?thesis
    unfolding dateParts_def using Cons by simp
qed

lemma insertBy_nonempty: "insertBy cmp x ys \<noteq> []"
  by (cases ys) simp_all

lemma sortBy_nonempty: "xs \<noteq> [] \<Longrightarrow> sortBy cmp xs \<noteq> []"
  by (cases xs) (simp_all add: sortBy_def insertBy_nonempty)

lemma firstLine_nonempty: "xs \<noteq> [] \<Longrightarrow> firstLine xs \<noteq> []"
  by (cases xs) (simp_all add: firstLine_def Let_def)

lemma scrapePostDate_glyphs:
  assumes ne: "singleCharSpans el \<noteq> []"
  shows "scrapePostDate (Some el) = joinFragments (map gText (firstLine (sortedSpans el)))"
proof -
  from ne have "sortedSpans el \<noteq> []"
    by (simp add: sortedSpans_def sortBy_nonempty)
  with ne show ?thesis
    by (simp add: scrapePostDate_def dateParts_joinFragments)
qed

lemmas date_defs = scrapePostDate_def singleCharSpans_def trim_def isWhiteSpace_def
  sortedSpans_def sortBy_def toGlyph_def compareSpans_def firstLine_def dateParts_def
  joinStep_def hasDigit_def digitClass_def rtest_def rmatchHere_def isDigit_def upt_rec Let_def


subsection \<open>The date extractor\<close>

text \<open>
  Claim C4, as the code has it. Whenever the anchor holds one-character spans, the
  date is the join of the texts of the sorted spans of the first line, with a
  separating space exactly where a fragment of the digit class meets one that is
  not, and none inside a run of one class; the reduction joins every array of
  fragments so, in whatever order the sort left it. The spans "8" (x=10, y=0) and "h" (x=20,
  y=0) give "8 h": the digit meets a non-digit. Joining the fragments "8" and "hrs"
  gives "8 hrs"; but a span "hrs" is not a one-character span, the extractor leaves
  it out, and the anchor with the spans "8" and "hrs" gives "8".
\<close>

theorem date_glyph_reconstruction:
  "(singleCharSpans el \<noteq> [] \<longrightarrow>
      scrapePostDate (Some el) = joinFragments (map gText (firstLine (sortedSpans el))))
   \<and> dateParts array = joinFragments (map gText array)
   \<and> scrapePostDate (Some \<lparr>anchorId = i,
        anchorSpans = [\<lparr>spanText = ''8'', rectTop = 0, rectLeft = 10\<rparr>,
                       \<lparr>spanText = ''h'', rectTop = 0, rectLeft = 20\<rparr>],
        anchorText = ''8h''\<rparr>) = ''8 h''
   \<and> joinFragments [''8'', ''hrs''] = ''8 hrs''
   \<and> dateParts [\<lparr>gText = ''8'', gY = 0, gX = 10\<rparr>, \<lparr>gText = ''hrs'', gY = 0, gX = 20\<rparr>] = ''8 hrs''
   \<and> scrapePostDate (Some \<lparr>anchorId = i,
        anchorSpans = [\<lparr>spanText = ''8'', rectTop = 0, rectLeft = 10\<rparr>,
                       \<lparr>spanText = ''hrs'', rectTop = 0, rectLeft = 20\<rparr>],
        anchorText = ''8hrs''\<rparr>) = ''8''"
proof (intro conjI impI)
  assume "singleCharSpans el \<noteq> []"
  then show "scrapePostDate (Some el) = joinFragments (map gText (firstLine (sortedSpans el)))"
    by (rule scrapePostDate_glyphs)
next
  show "dateParts array = joinFragments (map gText array)"
    by (rule dateParts_joinFragments)
qed (simp_all add: date_defs)

text \<open>
  A witness for C4: the spans "1", "h", "2" of one line, out of order in the
  document, and a span "x" on a lower line. The date is "12 h": no space inside the
  run of digits, one space where the digits meet the letter.
\<close>

theorem date_glyph_reconstruction_witness:
  "singleCharSpans \<lparr>anchorId = 0,
        anchorSpans = [\<lparr>spanText = ''1'', rectTop = 0, rectLeft = 10\<rparr>,
                       \<lparr>spanText = ''h'', rectTop = 2, rectLeft = 30\<rparr>,
                       \<lparr>spanText = ''x'', rectTop = 40, rectLeft = 0\<rparr>,
                       \<lparr>spanText = ''2'', rectTop = 1, rectLeft = 20\<rparr>],
        anchorText = ''1h x2''\<rparr> \<noteq> []
   \<and> scrapePostDate (Some \<lparr>anchorId = 0,
        anchorSpans = [\<lparr>spanText = ''1'', rectTop = 0, rectLeft = 10\<rparr>,
                       \<lparr>spanText = ''h'', rectTop = 2, rectLeft = 30\<rparr>,
                       \<lparr>spanText = ''x'', rectTop = 40, rectLeft = 0\<rparr>,
                       \<lparr>spanText = ''2'', rectTop = 1, rectLeft = 20\<rparr>],
        anchorText = ''1h x2''\<rparr>) = ''12 h''"
  using date_glyph_reconstruction [of "\<lparr>anchorId = 0,
        anchorSpans = [\<lparr>spanText = ''1'', rectTop = 0, rectLeft = 10\<rparr>,
                       \<lparr>spanText = ''h'', rectTop = 2, rectLeft = 30\<rparr>,
                       \<lparr>spanText = ''x'', rectTop = 40, rectLeft = 0\<rparr>,
                       \<lparr>spanText = ''2'', rectTop = 1, rectLeft = 20\<rparr>],
        anchorText = ''1h x2''\<rparr>" "[]" 0]
  by (simp add: singleCharSpans_def trim_def isWhiteSpace_def sortedSpans_def sortBy_def
        toGlyph_def compareSpans_def firstLine_def digitClass_def isDigit_def Let_def)

text \<open>
  C4 as the spec states it fails: the spans "8" (x=10, y=0) and "h" (x=20, y=0) do not
  give "8h".
\<close>

theorem date_8_h_counterexample:
  "scrapePostDate (Some \<lparr>anchorId = 0,
        anchorSpans = [\<lparr>spanText = ''8'', rectTop = 0, rectLeft = 10\<rparr>,
                       \<lparr>spanText = ''h'', rectTop = 0, rectLeft = 20\<rparr>],
        anchorText = ''8h''\<rparr>) \<noteq> ''8h''"
  by (simp add: date_defs)

subsection \<open>Sentinels\<close>

text \<open>
  Claim C6. Each field extractor returns its not-found value, as a value, for an
  absent container and for an empty one (no descendants, no text): the date extractor
  \<open>DATE_NOT_FOUND\<close>, the author and location extractor \<open>AUTHOR_NOT_FOUND\<close> and
  \<open>LOCATION_NOT_FOUND\<close>, and the engagement extractor the record of an empty first
  liker and zero counts.
\<close>

theorem sentinel_totality:
  "scrapePostDate None = ''DATE_NOT_FOUND''
   \<and> scrapePostDate (Some \<lparr>anchorId = i, anchorSpans = [], anchorText = []\<rparr>) = ''DATE_NOT_FOUND''
   \<and> scrapePostAuthorAndMeta None d
       = \<lparr>postAuthor = ''AUTHOR_NOT_FOUND'', postLocation = ''LOCATION_NOT_FOUND''\<rparr>
   \<and> scrapePostAuthorAndMeta (Some \<lparr>headerAuthorLink = None, headerLinks = []\<rparr>) d
       = \<lparr>postAuthor = ''AUTHOR_NOT_FOUND'', postLocation = ''LOCATION_NOT_FOUND''\<rparr>
   \<and> scrapeEngagement None
       = \<lparr>likes = \<lparr>firstLiker = [], otherCount = Number 0\<rparr>, totalComments = Number 0\<rparr>
   \<and> scrapeEngagement (Some \<lparr>statsInnerText = [], likersElement = None\<rparr>)
       = \<lparr>likes = \<lparr>firstLiker = [], otherCount = Number 0\<rparr>, totalComments = Number 0\<rparr>"
  by (simp add: scrapePostDate_def singleCharSpans_def trim_def orElse_def
        scrapePostAuthorAndMeta_def scrapeEngagement_def countPass_def labelPass_def)

subsection \<open>The engagement extractor\<close>


























section \<open>Properties of the comment extractor\<close>

text \<open>
  Claim C2. The records (A,0), (B,1), (C,1), (D,0), whatever their names and
  messages, are nested as A with the replies B and C, followed by D; B, C and D have
  no \<open>replies\<close> property.
\<close>

theorem depth_stack_example:
  "commentTree
     [\<lparr>rawName = na, rawMessage = ma, rawDepth = 0\<rparr>, \<lparr>rawName = nb, rawMessage = mb, rawDepth = 1\<rparr>,
      \<lparr>rawName = nc, rawMessage = mc, rawDepth = 1\<rparr>, \<lparr>rawName = nd, rawMessage = md, rawDepth = 0\<rparr>]
   = Some [Comment na ma (Some [Comment nb mb None, Comment nc mc None]), Comment nd md None]"
  by (simp add: commentTree_def nestComments_def nestAll_def allocate_def nestStep_def
        pushReply_def Let_def)

subsection \<open>The invariant of the nesting loop\<close>

lemma wfStore_mono: "wfStore i h \<Longrightarrow> i \<le> j \<Longrightarrow> wfStore j h"
  unfolding wfStore_def by fastforce

lemma nestStep_length: "length (objects (nestStep st item)) = length (objects st)"
  by (cases item) (simp add: nestStep_def Let_def split: list.splits prod.splits)

lemma wfStore_pushReply:
  assumes wf: "wfStore i h" and p: "p < i"
  shows "wfStore (Suc i) (h[p := pushReply (h ! p) i])"
  unfolding wfStore_def
proof (intro allI impI)
  fix q rs
  assume q: "q < length (h[p := pushReply (h ! p) i])"
    and rs: "replies (h[p := pushReply (h ! p) i] ! q) = Some rs"
  show "rs \<noteq> [] \<and> (\<forall>r\<in>set rs. q < r \<and> r < Suc i)"
  proof (cases "q = p")
    case True
    with q rs have rs': "rs = (case replies (h ! p) of None \<Rightarrow> [] | Some xs \<Rightarrow> xs) @ [i]"
      by (simp add: pushReply_def)
    show ?thesis
    proof (cases "replies (h ! p)")
      case None
      with rs' p True show ?thesis by simp
    next
      case (Some xs)
      with wf q True have "\<forall>r\<in>set xs. p < r \<and> r < i"
        unfolding wfStore_def by simp
      with rs' Some p True show ?thesis by auto
    qed
  next
    case False
    with q rs have "replies (h ! q) = Some rs" "q < length h" by simp_all
    with wf have "rs \<noteq> [] \<and> (\<forall>r\<in>set rs. q < r \<and> r < i)"
      unfolding wfStore_def by blast
    then show ?thesis by auto
  qed
qed

lemma nestStep_inv:
  assumes inv: "nestingInv i st"
  shows "nestingInv (Suc i) (nestStep st (i, d))"
proof -
  let ?stack = "dropWhile (\<lambda>(_, d'). d \<le> d') (commentStack st)"
  have sub: "set ?stack \<subseteq> set (commentStack st)"
    by (rule set_dropWhileD [THEN subsetI]) 
  from inv have wf: "wfStore i (objects st)"
    and ns: "\<forall>c \<in> set (nestedComments st). c < i"
    and cs: "\<forall>e \<in> set (commentStack st). fst e < i"
    unfolding nestingInv_def by simp_all
  from cs sub have cs': "\<forall>e \<in> set ?stack. fst e < Suc i" by fastforce
  show ?thesis
  proof (cases ?stack)
    case Nil
    then have st: "nestStep st (i, d) =
        st\<lparr>nestedComments := nestedComments st @ [i], commentStack := [(i, d)]\<rparr>"
      by (simp add: nestStep_def Let_def del: dropWhile_eq_Nil_conv)
    show ?thesis
      unfolding st nestingInv_def using wfStore_mono [OF wf, of "Suc i"] ns
      by (auto intro: less_SucI)
  next
    case (Cons e es)
    obtain p dp where e: "e = (p, dp)" by (cases e)
    from Cons e sub cs have p: "p < i" by fastforce
    from Cons e have st: "nestStep st (i, d) =
        st\<lparr>objects := (objects st)[p := pushReply (objects st ! p) i],
           commentStack := (i, d) # ?stack\<rparr>"
      by (simp add: nestStep_def Let_def)
    show ?thesis
      unfolding st nestingInv_def using wfStore_pushReply [OF wf p] ns cs'
      by (auto intro: less_SucI)
  qed
qed

lemma nestLoop_inv:
  "nestingInv i st \<Longrightarrow>
     nestingInv (i + length ds) (foldl nestStep st (enumerate i ds))
     \<and> length (objects (foldl nestStep st (enumerate i ds))) = length (objects st)"
proof (induction ds arbitrary: i st)
  case Nil
  then show ?case by simp
next
  case (Cons d ds)
  from nestStep_inv [OF Cons.prems, of d] Cons.IH [of "Suc i" "nestStep st (i, d)"]
  show ?case by (simp add: nestStep_length)
qed

lemma nestAll_inv:
  "nestingInv (length raws) (nestAll raws) \<and> length (objects (nestAll raws)) = length raws"
proof -
  have "nestingInv 0 \<lparr>objects = allocate raws, nestedComments = [], commentStack = []\<rparr>"
    by (simp add: nestingInv_def wfStore_def allocate_def)
  from nestLoop_inv [OF this, of "map rawDepth raws"] show ?thesis
    by (simp add: nestAll_def allocate_def)
qed

text \<open>
  What \<open>removeEmptyReplies\<close> is for: an object with an empty \<open>replies\<close> array loses the
  property, an object with replies keeps it.
\<close>

lemma removeEmptyReplies_strips:
  "removeEmptyReplies (Suc (Suc fuel))
     [\<lparr>name = n, message = m, replies = Some [1]\<rparr>, \<lparr>name = n', message = m', replies = Some []\<rparr>] [0]
   = Some [\<lparr>name = n, message = m, replies = Some [1]\<rparr>, \<lparr>name = n', message = m', replies = None\<rparr>]"
  by simp

text \<open>
  On a store that satisfies the invariant, with fuel for its whole depth,
  \<open>removeEmptyReplies\<close> returns and changes nothing, and \<open>stringify\<close> returns a forest
  without empty \<open>replies\<close>.
\<close>

lemma wfStore_replies:
  assumes "wfStore i h" "c < length h" "replies (h ! c) = Some rs"
  shows "rs \<noteq> []" and "\<forall>r \<in> set rs. c < r \<and> r < i"
  using assms unfolding wfStore_def by blast+

lemma removeEmptyReplies_id:
  "wfStore (length h) h \<Longrightarrow> \<forall>c \<in> set cs. c < length h \<and> length h - c \<le> fuel \<Longrightarrow>
     removeEmptyReplies fuel h cs = Some h"
proof (induction fuel h cs rule: removeEmptyReplies.induct)
  case (1 fuel h)
  then show ?case by simp
next
  case (2 h c cs)
  then show ?case by auto
next
  case (3 fuel h c cs)
  from "3.prems" have c: "c < length h" and cf: "length h - c \<le> Suc fuel"
    and rest: "\<forall>x \<in> set cs. x < length h \<and> length h - x \<le> Suc fuel" by simp_all
  show ?case
  proof (cases "replies (h ! c)")
    case None
    then have same: "h[c := (h ! c)\<lparr>replies := None\<rparr>] = h"
      by (simp add: list_update_same_conv c)
    from "3.IH"(1) [OF c None] "3.prems"(1) rest same c None show ?thesis
      by simp
  next
    case (Some rs)
    from wfStore_replies [OF "3.prems"(1) c Some] obtain r rs' where
      rs: "rs = r # rs'" and below: "\<forall>x \<in> set rs. c < x \<and> x < length h"
      by (cases rs) auto
    from below cf have "\<forall>x \<in> set (r # rs'). x < length h \<and> length h - x \<le> fuel"
      unfolding rs by auto
    from "3.IH"(3) [OF c Some rs "3.prems"(1) this]
    have inner: "removeEmptyReplies fuel h (r # rs') = Some h" .
    from "3.IH"(4) [OF c Some rs inner "3.prems"(1) rest] inner c Some rs
    show ?thesis by simp
  qed
qed

lemma stringify_wf:
  "wfStore (length h) h \<Longrightarrow> \<forall>c \<in> set cs. c < length h \<and> length h - c \<le> fuel \<Longrightarrow>
     \<exists>F. stringify fuel h cs = Some F \<and> noEmptyReplies F"
proof (induction fuel h cs rule: stringify.induct)
  case (1 fuel h)
  then show ?case by simp
next
  case (2 h c cs)
  then show ?case by auto
next
  case (3 fuel h c cs)
  from "3.prems" have c: "c < length h" and cf: "length h - c \<le> Suc fuel"
    and rest: "\<forall>x \<in> set cs. x < length h \<and> length h - x \<le> Suc fuel" by simp_all
  show ?case
  proof (cases "replies (h ! c)")
    case None
    have "(case replies (h ! c) of None \<Rightarrow> Some None
            | Some rs \<Rightarrow> map_option Some (stringify fuel h rs)) = Some None"
      using None by simp
    from "3.IH"(2) [OF c this "3.prems"(1) rest]
    obtain F where "stringify (Suc fuel) h cs = Some F" "noEmptyReplies F" by auto
    with c None show ?thesis by simp
  next
    case (Some rs)
    from wfStore_replies [OF "3.prems"(1) c Some]
    have ne: "rs \<noteq> []" and below: "\<forall>x \<in> set rs. c < x \<and> x < length h" by auto
    from below cf have "\<forall>x \<in> set rs. x < length h \<and> length h - x \<le> fuel" by auto
    from "3.IH"(1) [OF c Some "3.prems"(1) this]
    obtain R where R: "stringify fuel h rs = Some R" "noEmptyReplies R" by auto
    from R(1) ne have Rne: "R \<noteq> []" by (cases rs; cases fuel) (auto split: if_splits option.splits)
    have "(case replies (h ! c) of None \<Rightarrow> Some None
            | Some rs \<Rightarrow> map_option Some (stringify fuel h rs)) = Some (Some R)"
      using Some R by simp
    from "3.IH"(2) [OF c this "3.prems"(1) rest]
    obtain F where "stringify (Suc fuel) h cs = Some F" "noEmptyReplies F" by auto
    with c Some R Rne show ?thesis by simp
  qed
qed

lemma nestAll_roots:
  "wfStore (length (objects (nestAll raws))) (objects (nestAll raws))
   \<and> (\<forall>c \<in> set (nestedComments (nestAll raws)).
         c < length (objects (nestAll raws))
         \<and> length (objects (nestAll raws)) - c \<le> Suc (length (objects (nestAll raws))))"
  using nestAll_inv [of raws] unfolding nestingInv_def by auto

lemma nestComments_total: "nestComments raws = Some (objects (nestAll raws), nestedComments (nestAll raws))"
  using nestAll_roots [of raws] removeEmptyReplies_id
  by (simp add: nestComments_def Let_def)

lemma commentTree_total: "\<exists>F. commentTree raws = Some F \<and> noEmptyReplies F"
  using nestAll_roots [of raws] stringify_wf
  by (simp add: commentTree_def nestComments_total)

text \<open>
  Claim C3. For every sequence of raw comment records the nesting, the pass of
  \<open>removeEmptyReplies\<close> and the export return a tree, and no comment anywhere in it has
  a \<open>replies\<close> list of length zero: a comment without replies has no \<open>replies\<close> at all.
\<close>

theorem empty_replies_invariant: "\<exists>F. commentTree raws = Some F \<and> noEmptyReplies F"
  by (rule commentTree_total)

subsection \<open>Building from a flattened tree\<close>

lemma kids_simps [simp]:
  "kids None = []" "kids (Some []) = []" "kids (Some (x # xs)) = x # xs"
  by (simp_all add: kids_def)

lemma forest_induct_lvl [case_names Nil Cons]:
  assumes "\<And>lvl. P [] lvl"
    and "\<And>n m r cs lvl. P (kids r) (Suc lvl) \<Longrightarrow> P cs lvl \<Longrightarrow> P (Comment n m r # cs) lvl"
  shows "P ts lvl"
proof (induction ts lvl rule: flattenComments.induct)
  case (1 lvl)
  show ?case by (rule assms(1))
next
  case (2 n m r cs lvl)
  have "P (kids r) (Suc lvl)"
  proof (cases r)
    case None
    then show ?thesis by (simp add: assms(1))
  next
    case (Some rs)
    then show ?thesis using 2(1) by (cases rs) (simp_all add: assms(1))
  qed
  with 2(2) show ?case by (rule assms(2) [rotated])
qed

lemma forest_induct [case_names Nil Cons]:
  assumes "P []"
    and "\<And>n m r cs. P (kids r) \<Longrightarrow> P cs \<Longrightarrow> P (Comment n m r # cs)"
  shows "P ts"
  using forest_induct_lvl [of "\<lambda>ts lvl. P ts" ts 0] assms by blast

lemma flatten_Cons:
  "flattenComments (Comment n m r # cs) lvl =
     \<lparr>flatName = n, flatMessage = m, flatReplies = r, level = lvl\<rparr>
       # flattenComments (kids r) (Suc lvl) @ flattenComments cs lvl"
  by (simp add: kids_def split: option.splits list.splits)

lemma nodes_Cons:
  "nodes (Comment n m r # cs) = Suc (nodes (kids r) + nodes cs)"
  by (simp add: kids_def split: option.splits list.splits)

lemma rootsAt_Cons:
  "rootsAt a (Comment n m r # cs) = a # rootsAt (Suc a + nodes (kids r)) cs"
  by (simp add: kids_def split: option.splits list.splits)

lemma layout_Cons:
  "layout a (Comment n m r # cs) =
     \<lparr>name = n, message = m,
      replies = (if kids r = [] then None else Some (rootsAt (Suc a) (kids r)))\<rparr>
       # layout (Suc a) (kids r) @ layout (Suc a + nodes (kids r)) cs"
  by (simp add: kids_def split: option.splits list.splits)

lemma fresh_Cons:
  "fresh (Comment n m r # cs) =
     \<lparr>name = n, message = m, replies = None\<rparr> # fresh (kids r) @ fresh cs"
  by (simp add: kids_def split: option.splits list.splits)

lemmas forest_simps = flatten_Cons nodes_Cons rootsAt_Cons layout_Cons fresh_Cons

lemmas forest_dels = flattenComments.simps(2) nodes.simps(2) rootsAt.simps(2) layout.simps(2)
  fresh.simps(2)

lemma length_flatten: "length (flattenComments ts lvl) = nodes ts"
  by (induction ts lvl rule: forest_induct_lvl) (simp_all add: forest_simps del: forest_dels)

lemma length_layout: "length (layout a ts) = nodes ts"
  by (induction ts arbitrary: a rule: forest_induct) (simp_all add: forest_simps del: forest_dels)

lemma length_fresh: "length (fresh ts) = nodes ts"
  by (induction ts rule: forest_induct) (simp_all add: forest_simps del: forest_dels)

lemma fresh_flatten: "allocate (map rawOfFlat (flattenComments ts lvl)) = fresh ts"
  by (induction ts lvl rule: forest_induct_lvl)
     (simp_all add: forest_simps allocate_def rawOfFlat_def del: forest_dels)

lemma rootsAt_Nil_iff: "rootsAt a ts = [] \<longleftrightarrow> ts = []"
  by (cases ts) simp_all

lemma addReplies_Nil [simp]: "addReplies obj [] = obj"
  by (simp add: addReplies_def)

lemma pushReply_addReplies: "pushReply obj c = addReplies obj [c]"
  by (simp add: pushReply_def addReplies_def)

lemma addReplies_addReplies: "addReplies (addReplies obj rs) rs' = addReplies obj (rs @ rs')"
  by (simp add: addReplies_def split: option.splits)

lemma length_attachPre [simp]: "length (attachPre S roots pre) = length pre"
  by (simp add: attachPre_def split: list.splits prod.splits)

lemma attachPre_Nil [simp]: "attachPre S [] pre = pre"
  by (simp add: attachPre_def split: list.splits prod.splits)

lemma attachTop_Nil [simp]: "attachTop S [] N = N"
  by (simp add: attachTop_def split: list.splits)

lemma attachTop_attachTop: "attachTop S rs' (attachTop S rs N) = attachTop S (rs @ rs') N"
  by (simp add: attachTop_def split: list.splits)

lemma attachPre_attachPre:
  "parentOk S lvl (length pre) \<Longrightarrow>
     attachPre S rs' (attachPre S rs pre @ rest) = attachPre S (rs @ rs') pre @ rest"
  by (auto simp: attachPre_def parentOk_def list_update_append1 nth_append addReplies_addReplies
           split: list.splits prod.splits)

lemma attachPre_self:
  "attachPre ((length pre, lvl) # S) rs (pre @ [obj]) = pre @ [addReplies obj rs]"
  by (simp add: attachPre_def)

lemma parentOk_mono: "parentOk S lvl a \<Longrightarrow> a \<le> b \<Longrightarrow> parentOk S lvl b"
  by (auto simp: parentOk_def split: list.splits prod.splits)

lemma dropWhile_stack:
  assumes X: "\<forall>e \<in> set X. lvl \<le> snd e" and ok: "parentOk S lvl a"
  shows "dropWhile (\<lambda>(_, d). lvl \<le> d) (X @ S) = S"
proof -
  have "dropWhile (\<lambda>(_, d). lvl \<le> d) (X @ S) = dropWhile (\<lambda>(_, d). lvl \<le> d) S"
    using X by (intro dropWhile_append2) auto
  also have "\<dots> = S"
    using ok by (cases S) (auto simp: parentOk_def)
  finally show ?thesis .
qed

lemma nestStep_attach:
  assumes X: "\<forall>e \<in> set X. lvl \<le> snd e" and ok: "parentOk S lvl (length pre)"
  shows "nestStep \<lparr>objects = pre @ rest, nestedComments = N, commentStack = X @ S\<rparr> (a, lvl)
       = \<lparr>objects = attachPre S [a] pre @ rest, nestedComments = attachTop S [a] N,
          commentStack = (a, lvl) # S\<rparr>"
proof (cases S)
  case Nil
  with dropWhile_stack [OF X ok] show ?thesis
    by (simp add: nestStep_def Let_def attachPre_def attachTop_def del: dropWhile_eq_Nil_conv)
next
  case (Cons e S')
  obtain p dp where e: "e = (p, dp)" by (cases e)
  from ok Cons e have p: "p < length pre" by (simp add: parentOk_def)
  from dropWhile_stack [OF X ok] Cons e p show ?thesis
    by (simp add: nestStep_def Let_def attachPre_def attachTop_def list_update_append1 nth_append
          pushReply_addReplies)
qed

text \<open>
  The loop over the flattened form of a forest, started with the fresh objects of the
  forest at the addresses from \<open>length pre\<close> on, a stack whose entries above \<open>S\<close> are
  at least as deep as the forest's level, and a parent on top of \<open>S\<close> that is less
  deep: it lays the forest out and attaches its roots to the parent.
\<close>

lemma nest_forest:
  "\<forall>e \<in> set X. lvl \<le> snd e \<Longrightarrow> parentOk S lvl (length pre) \<Longrightarrow>
   \<exists>X'. (\<forall>e \<in> set X'. lvl \<le> snd e) \<and>
     foldl nestStep \<lparr>objects = pre @ fresh ts @ post, nestedComments = N, commentStack = X @ S\<rparr>
        (enumerate (length pre) (map level (flattenComments ts lvl)))
     = \<lparr>objects = attachPre S (rootsAt (length pre) ts) pre @ layout (length pre) ts @ post,
        nestedComments = attachTop S (rootsAt (length pre) ts) N, commentStack = X' @ S\<rparr>"
proof (induction ts lvl arbitrary: X S pre post N rule: forest_induct_lvl)
  case (Nil lvl)
  then show ?case by (intro exI [of _ X]) simp
next
  case (Cons n m r cs lvl)
  let ?a = "length pre"
  let ?k = "kids r"
  let ?obj0 = "\<lparr>name = n, message = m, replies = None\<rparr>"
  let ?rk = "rootsAt (Suc ?a) ?k"
  let ?obj1 = "\<lparr>name = n, message = m, replies = (if ?k = [] then None else Some ?rk)\<rparr>"
  let ?pre1 = "attachPre S [?a] pre"
  let ?N1 = "attachTop S [?a] N"
  let ?b = "Suc ?a + nodes ?k"
  let ?rc = "rootsAt ?b cs"
  let ?itemsK = "enumerate (Suc ?a) (map level (flattenComments ?k (Suc lvl)))"
  let ?itemsC = "enumerate ?b (map level (flattenComments cs lvl))"
  have items: "enumerate ?a (map level (flattenComments (Comment n m r # cs) lvl))
      = (?a, lvl) # ?itemsK @ ?itemsC"
    by (simp add: flatten_Cons enumerate_append_eq length_flatten del: flattenComments.simps(2))
  \<comment> \<open>the node itself\<close>
  have step1: "nestStep \<lparr>objects = pre @ fresh (Comment n m r # cs) @ post, nestedComments = N,
                         commentStack = X @ S\<rparr> (?a, lvl)
      = \<lparr>objects = (?pre1 @ [?obj0]) @ fresh ?k @ (fresh cs @ post), nestedComments = ?N1,
         commentStack = [] @ (?a, lvl) # S\<rparr>"
    using nestStep_attach [OF Cons.prems, of "fresh (Comment n m r # cs) @ post" N ?a]
    by (simp add: fresh_Cons del: fresh.simps(2))
  \<comment> \<open>its replies, one level down\<close>
  have okK: "parentOk ((?a, lvl) # S) (Suc lvl) (length (?pre1 @ [?obj0]))"
    by (simp add: parentOk_def)
  from Cons.IH(1) [of "[]" "(?a, lvl) # S" "?pre1 @ [?obj0]" "fresh cs @ post" ?N1, OF _ okK]
  obtain X1 where X1: "\<forall>e \<in> set X1. Suc lvl \<le> snd e"
    and step2: "foldl nestStep
        \<lparr>objects = (?pre1 @ [?obj0]) @ fresh ?k @ (fresh cs @ post), nestedComments = ?N1,
          commentStack = [] @ (?a, lvl) # S\<rparr> ?itemsK
      = \<lparr>objects = attachPre ((?a, lvl) # S) ?rk (?pre1 @ [?obj0]) @ layout (Suc ?a) ?k
                      @ (fresh cs @ post),
         nestedComments = attachTop ((?a, lvl) # S) ?rk ?N1,
         commentStack = X1 @ (?a, lvl) # S\<rparr>"
    by auto
  have obj1: "attachPre ((?a, lvl) # S) ?rk (?pre1 @ [?obj0]) = ?pre1 @ [?obj1]"
    using attachPre_self [of ?pre1 lvl S ?rk ?obj0]
    by (simp add: addReplies_def rootsAt_Nil_iff)
  let ?pre2 = "?pre1 @ ?obj1 # layout (Suc ?a) ?k"
  have step2': "foldl nestStep
        \<lparr>objects = (?pre1 @ [?obj0]) @ fresh ?k @ (fresh cs @ post), nestedComments = ?N1,
          commentStack = [] @ (?a, lvl) # S\<rparr> ?itemsK
      = \<lparr>objects = ?pre2 @ fresh cs @ post, nestedComments = ?N1,
         commentStack = (X1 @ [(?a, lvl)]) @ S\<rparr>"
    unfolding step2 obj1 by (simp add: attachTop_def)
  \<comment> \<open>the comments after it, on its own level\<close>
  have len2: "length ?pre2 = ?b"
    by (simp add: length_layout)
  have X2: "\<forall>e \<in> set (X1 @ [(?a, lvl)]). lvl \<le> snd e"
    using X1 by auto
  have okC: "parentOk S lvl (length ?pre2)"
    using Cons.prems(2) by (rule parentOk_mono) simp
  from Cons.IH(2) [of "X1 @ [(?a, lvl)]" S ?pre2 post ?N1, OF X2 okC]
  obtain X' where X': "\<forall>e \<in> set X'. lvl \<le> snd e"
    and step3: "foldl nestStep
        \<lparr>objects = ?pre2 @ fresh cs @ post, nestedComments = ?N1,
          commentStack = (X1 @ [(?a, lvl)]) @ S\<rparr> ?itemsC
      = \<lparr>objects = attachPre S ?rc ?pre2 @ layout ?b cs @ post,
         nestedComments = attachTop S ?rc ?N1, commentStack = X' @ S\<rparr>"
    unfolding len2 by auto
  have pre: "attachPre S ?rc ?pre2 = attachPre S (?a # ?rc) pre @ ?obj1 # layout (Suc ?a) ?k"
    using attachPre_attachPre [OF Cons.prems(2), of ?rc "[?a]" "?obj1 # layout (Suc ?a) ?k"]
    by simp
  have "foldl nestStep
        \<lparr>objects = pre @ fresh (Comment n m r # cs) @ post, nestedComments = N,
          commentStack = X @ S\<rparr>
        (enumerate ?a (map level (flattenComments (Comment n m r # cs) lvl)))
      = \<lparr>objects = attachPre S (rootsAt ?a (Comment n m r # cs)) pre
                     @ layout ?a (Comment n m r # cs) @ post,
         nestedComments = attachTop S (rootsAt ?a (Comment n m r # cs)) N,
         commentStack = X' @ S\<rparr>"
    unfolding items foldl_Cons foldl_append step1 step2' step3 pre
    by (simp add: rootsAt_Cons layout_Cons attachTop_attachTop
          del: rootsAt.simps(2) layout.simps(2))
  with X' show ?case by blast
qed

lemma noEmptyReplies_Cons:
  "noEmptyReplies (Comment n m r # cs) =
     (r = (if kids r = [] then None else Some (kids r)) \<and> noEmptyReplies (kids r) \<and> noEmptyReplies cs)"
  by (auto simp: kids_def split: option.splits list.splits)

lemma stringify_layout:
  "noEmptyReplies ts \<Longrightarrow> nodes ts \<le> fuel \<Longrightarrow>
     stringify fuel (pre @ layout (length pre) ts @ post) (rootsAt (length pre) ts) = Some ts"
proof (induction ts arbitrary: pre post fuel rule: forest_induct)
  case Nil
  then show ?case by simp
next
  case (Cons n m r cs)
  let ?a = "length pre"
  let ?k = "kids r"
  let ?rk = "rootsAt (Suc ?a) ?k"
  let ?obj1 = "\<lparr>name = n, message = m, replies = (if ?k = [] then None else Some ?rk)\<rparr>"
  let ?b = "Suc ?a + nodes ?k"
  define h where "h = pre @ layout ?a (Comment n m r # cs) @ post"
  from Cons.prems(2) obtain f where fuel: "fuel = Suc f" and fk: "nodes ?k \<le> f"
    and fc: "nodes cs \<le> Suc f"
    by (cases fuel) (auto simp: nodes_Cons simp del: nodes.simps(2))
  from Cons.prems(1) have r: "r = (if ?k = [] then None else Some ?k)"
    and nk: "noEmptyReplies ?k" and nc: "noEmptyReplies cs"
    by (simp_all add: noEmptyReplies_Cons del: noEmptyReplies.simps(2))
  have hK: "h = (pre @ [?obj1]) @ layout (length (pre @ [?obj1])) ?k @ (layout ?b cs @ post)"
    unfolding h_def by (simp add: layout_Cons del: layout.simps(2))
  have hC: "h = (pre @ ?obj1 # layout (Suc ?a) ?k)
                 @ layout (length (pre @ ?obj1 # layout (Suc ?a) ?k)) cs @ post"
    unfolding h_def by (simp add: layout_Cons length_layout del: layout.simps(2))
  have at: "?a < length h" "h ! ?a = ?obj1"
    unfolding h_def by (simp_all add: layout_Cons nth_append del: layout.simps(2))
  have inner: "stringify f h ?rk = Some ?k"
    using Cons.IH(1) [OF nk fk, of "pre @ [?obj1]" "layout ?b cs @ post"]
    unfolding hK [symmetric] by simp
  have outer: "stringify (Suc f) h (rootsAt ?b cs) = Some cs"
    using Cons.IH(2) [OF nc fc, of "pre @ ?obj1 # layout (Suc ?a) ?k" post]
    unfolding hC [symmetric] by (simp add: length_layout)
  have "stringify (Suc f) h (?a # rootsAt ?b cs)
      = Some (Comment n m (if ?k = [] then None else Some ?k) # cs)"
    using at inner outer by (cases "kids r = []") simp_all
  with r fuel show ?case
    unfolding h_def by (simp add: rootsAt_Cons del: rootsAt.simps(2) layout.simps(2))
qed

lemma nestAll_flatten:
  "\<exists>X. nestAll (map rawOfFlat (flattenComments ts 0))
       = \<lparr>objects = layout 0 ts, nestedComments = rootsAt 0 ts, commentStack = X\<rparr>"
proof -
  have "parentOk [] 0 (length ([] :: store))" by (simp add: parentOk_def)
  from nest_forest [of "[]" 0 "[]" "[]" ts "[]" "[]", OF _ this]
  show ?thesis
    by (auto simp: nestAll_def fresh_flatten rawOfFlat_def attachPre_def attachTop_def comp_def)
qed

lemma commentTree_flatten:
  assumes "noEmptyReplies ts"
  shows "commentTree (map rawOfFlat (flattenComments ts 0)) = Some ts"
proof -
  from nestAll_flatten [of ts] obtain X where
    st: "nestAll (map rawOfFlat (flattenComments ts 0))
       = \<lparr>objects = layout 0 ts, nestedComments = rootsAt 0 ts, commentStack = X\<rparr>" ..
  have "stringify (Suc (length (layout 0 ts))) (layout 0 ts) (rootsAt 0 ts) = Some ts"
    using assms stringify_layout [of ts "Suc (nodes ts)" "[]" "[]"]
    by (simp add: length_layout)
  then show ?thesis
    by (simp add: commentTree_def nestComments_total st)
qed

text \<open>
  Claim C1. For every sequence of raw comment records (of natural depths, monotonic
  or not) the builder returns a tree; flattening that tree in pre-order with each
  comment's level, reading the flattened comments as raw records again and building
  from them returns the same tree.
\<close>

theorem comment_tree_round_trip:
  "\<exists>F. commentTree raws = Some F
       \<and> commentTree (map rawOfFlat (flattenComments F 0)) = Some F"
proof -
  from commentTree_total [of raws] obtain F where
    "commentTree raws = Some F" "noEmptyReplies F" by blast
  with commentTree_flatten [of F] show ?thesis by blast
qed

subsection \<open>The avatar map\<close>

lemma truthyProp_setProp_other:
  "k \<noteq> n \<Longrightarrow> truthyProp (setProp obj k (Some v)) n = truthyProp obj n"
  by (auto simp: truthyProp_def setProp_def split: option.splits)

lemma ownProps_setProp_other:
  "k \<noteq> n \<Longrightarrow> ownProps (setProp obj k (Some v)) n = ownProps obj n"
  by (simp add: setProp_def)

lemma protoInv_setProp: "protoInv obj \<Longrightarrow> protoInv (setProp obj k v)"
  by (auto simp: protoInv_def setProp_def split: option.splits)

lemma protoInv_seedAvatars: "protoInv (seedAvatars authorAvatarImage postAuthorName)"
  by (auto simp: seedAvatars_def emptyObject_def protoInv_def setProp_def split: option.splits)

lemma ownProps_setProp_new:
  assumes "protoInv obj" and "\<not> truthyProp obj n"
  shows "ownProps (setProp obj n (Some u)) n = Some (Some u)"
proof (cases "n = ''__proto__'' \<and> protoObject obj")
  case True
  with assms(1) have "ownProps obj n = None" by (simp add: protoInv_def)
  with True have "truthyProp obj n" by (simp add: truthyProp_def objectPrototypeKeys_def)
  with assms(2) show ?thesis by simp
next
  case False
  then show ?thesis by (auto simp: setProp_def)
qed

lemma scanArticle_protoInv:
  "protoInv (fst acc) \<Longrightarrow> protoInv (fst (scanArticle c acc e))"
  by (cases acc)
     (auto simp: scanArticle_def protoInv_setProp split: option.splits)

lemma scanArticle_before:
  assumes "\<not> truthyProp (fst acc) n" and "\<not> (parsedBy e n \<and> carriesAvatar e)"
  shows "\<not> truthyProp (fst (scanArticle c acc e)) n"
  using assms
  by (cases acc)
     (auto simp: scanArticle_def parsedBy_def carriesAvatar_def truthyProp_setProp_other
           split: option.splits)

lemma scanArticle_first:
  assumes "protoInv (fst acc)" and "\<not> truthyProp (fst acc) n"
    and "parsedBy e n" and "avatarImageOf e = Some u" and "u \<noteq> []"
  shows "ownProps (fst (scanArticle c acc e)) n = Some (Some u)"
  using assms
  by (cases acc)
     (auto simp: scanArticle_def parsedBy_def ownProps_setProp_new split: option.splits)

lemma scanArticle_later:
  assumes "ownProps (fst acc) n = Some (Some u)" and "u \<noteq> []"
  shows "ownProps (fst (scanArticle c acc e)) n = Some (Some u)"
proof -
  from assms have t: "truthyProp (fst acc) n" by (simp add: truthyProp_def)
  obtain av kept where acc: "acc = (av, kept)" by (cases acc)
  show ?thesis
  proof (cases "authorNameOf e = Some n")
    case True
    with assms t acc show ?thesis
      by (auto simp: scanArticle_def split: option.splits)
  next
    case False
    with assms acc show ?thesis
      by (auto simp: scanArticle_def ownProps_setProp_other split: option.splits)
  qed
qed

lemma scan_before:
  "\<not> truthyProp (fst acc) n \<Longrightarrow> protoInv (fst acc) \<Longrightarrow>
   list_all (\<lambda>e. \<not> (parsedBy e n \<and> carriesAvatar e)) es \<Longrightarrow>
     \<not> truthyProp (fst (foldl (scanArticle c) acc es)) n
     \<and> protoInv (fst (foldl (scanArticle c) acc es))"
proof (induction es arbitrary: acc)
  case Nil
  then show ?case by simp
next
  case (Cons e es)
  from Cons.prems have "\<not> (parsedBy e n \<and> carriesAvatar e)"
    and rest: "list_all (\<lambda>e. \<not> (parsedBy e n \<and> carriesAvatar e)) es" by simp_all
  from scanArticle_before [OF Cons.prems(1) this(1)] scanArticle_protoInv [OF Cons.prems(2)]
  have "\<not> truthyProp (fst (scanArticle c acc e)) n" "protoInv (fst (scanArticle c acc e))" .
  from Cons.IH [OF this rest] show ?case by simp
qed

lemma scan_later:
  "ownProps (fst acc) n = Some (Some u) \<Longrightarrow> u \<noteq> [] \<Longrightarrow>
     ownProps (fst (foldl (scanArticle c) acc es)) n = Some (Some u)"
proof (induction es arbitrary: acc)
  case Nil
  then show ?case by simp
next
  case (Cons e es)
  from Cons.IH [OF scanArticle_later [OF Cons.prems] Cons.prems(2)] show ?case by simp
qed

lemma avatarOf_scrape:
  "avatarOf (scrapeCommentsAndAvatars (Some container) authorAvatarImage postAuthorName) n
     = ownProps (setProp (fst (foldl (scanArticle container)
                     (seedAvatars authorAvatarImage postAuthorName, []) (articles container)))
                   ''fallback'' (Some fallbackUrl)) n"
  by (simp add: avatarOf_def scrapeCommentsAndAvatars_def Let_def nestComments_total)

text \<open>
  Before the comments are read the map holds something truthy only under the post
  author's name and under the names a plain object inherits.
\<close>

lemma seedAvatars_other:
  assumes "n \<noteq> postAuthorName" and "n \<notin> set objectPrototypeKeys"
  shows "\<not> truthyProp (seedAvatars authorAvatarImage postAuthorName) n"
  using assms
  by (auto simp: seedAvatars_def setProp_def emptyObject_def truthyProp_def split: option.splits)

lemma seedAvatars_no_header:
  assumes "n \<notin> set objectPrototypeKeys"
  shows "\<not> truthyProp (seedAvatars None postAuthorName) n"
  using assms by (simp add: seedAvatars_def emptyObject_def truthyProp_def)

text \<open>
  Claim C9, as the code has it. Let \<open>first\<close> be the first parsed comment by \<open>n\<close> that
  carries an avatar, with the URL \<open>u\<close>. If the map holds nothing truthy under \<open>n\<close> when
  the comments are read (the post author's header avatar is recorded before them,
  and a name that a plain object inherits reads as truthy) and \<open>n\<close> is not the key
  \<open>fallback\<close>, which is set last, then the returned map holds \<open>u\<close> under \<open>n\<close>, whatever
  avatars the later comments by \<open>n\<close> carry.
\<close>

theorem avatar_first_seen_wins:
  assumes arts: "articles container = before @ first # later"
    and first: "parsedBy first n" "avatarImageOf first = Some u" "u \<noteq> []"
    and before: "list_all (\<lambda>e. \<not> (parsedBy e n \<and> carriesAvatar e)) before"
    and n: "n \<noteq> ''fallback''"
    and seed: "\<not> truthyProp (seedAvatars authorAvatarImage postAuthorName) n"
  shows "avatarOf (scrapeCommentsAndAvatars (Some container) authorAvatarImage postAuthorName) n
           = Some (Some u)"
proof -
  let ?acc0 = "(seedAvatars authorAvatarImage postAuthorName, []) :: jsObject \<times> rawComment list"
  let ?acc1 = "foldl (scanArticle container) ?acc0 before"
  let ?acc2 = "scanArticle container ?acc1 first"
  from scan_before [of ?acc0 n before container] seed protoInv_seedAvatars before
  have b: "\<not> truthyProp (fst ?acc1) n" "protoInv (fst ?acc1)" by simp_all
  from scanArticle_first [OF b(2) b(1) first]
  have f: "ownProps (fst ?acc2) n = Some (Some u)" .
  from scan_later [OF f first(3), of container later]
  have "ownProps (fst (foldl (scanArticle container) ?acc0 (articles container))) n = Some (Some u)"
    by (simp add: arts)
  with n show ?thesis
    by (simp add: avatarOf_scrape ownProps_setProp_other)
qed

lemmas article_defs = authorNameOf_def messageOf_def avatarImageOf_def parseAuthor_def
  authorPattern_def Plus_def rmatchHere_def isDot_def isDigit_def trim_def isWhiteSpace_def

lemma ann_articles:
  "authorNameOf annFirst = Some ''Ann''" "messageOf annFirst = Some ''Nice photo''"
  "avatarImageOf annFirst = Some ''a1.png''"
  "authorNameOf annSecond = Some ''Ann''" "messageOf annSecond = Some ''Thanks''"
  "avatarImageOf annSecond = Some ''a2.png''"
  "authorNameOf bobComment = Some ''Bob''" "messageOf bobComment = Some ''Agreed''"
  "avatarImageOf bobComment = Some ''b.png''"
  by (simp_all add: annFirst_def annSecond_def bobComment_def article_defs)

text \<open>
  A witness for C9: Bob's comment, then a comment and a reply by Ann with the avatars
  \<open>a1.png\<close> and \<open>a2.png\<close>, on the page of another author. The map keeps \<open>a1.png\<close> for Ann.
\<close>

theorem avatar_first_seen_wins_witness:
  "articles bobAnnAnn = [bobComment] @ annFirst # [annSecond]
   \<and> parsedBy annFirst ''Ann'' \<and> avatarImageOf annFirst = Some ''a1.png''
   \<and> parsedBy annSecond ''Ann'' \<and> avatarImageOf annSecond = Some ''a2.png''
   \<and> list_all (\<lambda>e. \<not> (parsedBy e ''Ann'' \<and> carriesAvatar e)) [bobComment]
   \<and> \<not> truthyProp (seedAvatars (Some (Some ''h.png'')) ''Zed'') ''Ann''
   \<and> avatarOf (scrapeCommentsAndAvatars (Some bobAnnAnn) (Some (Some ''h.png'')) ''Zed'') ''Ann''
       = Some (Some ''a1.png'')"
proof -
  have h1: "articles bobAnnAnn = [bobComment] @ annFirst # [annSecond]"
    by (simp add: bobAnnAnn_def)
  have h2: "parsedBy annFirst ''Ann''" and h2': "parsedBy annSecond ''Ann''"
    by (simp_all add: parsedBy_def ann_articles)
  have h3: "avatarImageOf annFirst = Some ''a1.png''" and h3': "avatarImageOf annSecond = Some ''a2.png''"
    by (simp_all add: ann_articles)
  have h4: "''a1.png'' \<noteq> []" by simp
  have h5: "list_all (\<lambda>e. \<not> (parsedBy e ''Ann'' \<and> carriesAvatar e)) [bobComment]"
    by (simp add: parsedBy_def ann_articles)
  have h6: "''Ann'' \<noteq> ''fallback''" by simp
  have h7: "\<not> truthyProp (seedAvatars (Some (Some ''h.png'')) ''Zed'') ''Ann''"
    by (simp add: seedAvatars_def setProp_def emptyObject_def truthyProp_def objectPrototypeKeys_def)
  note r = avatar_first_seen_wins [OF h1 h2 h3 h4 h5 h6 h7]
  show ?thesis
    by (intro conjI) (rule h1 h2 h2' h3 h3' h5 h7 r)+
qed

text \<open>
  C9 as the spec states it fails: on the page of the post author Ann, whose header
  avatar is \<open>h.png\<close>, a comment and a reply by Ann carry \<open>a1.png\<close> and \<open>a2.png\<close>, and the
  map keeps neither: it holds \<open>h.png\<close> for Ann.
\<close>

theorem avatar_first_seen_counterexample:
  "parsedBy annFirst ''Ann'' \<and> avatarImageOf annFirst = Some ''a1.png''
   \<and> parsedBy annSecond ''Ann'' \<and> avatarImageOf annSecond = Some ''a2.png''
   \<and> avatarOf (scrapeCommentsAndAvatars (Some annAnn) (Some (Some ''h.png'')) ''Ann'') ''Ann''
       = Some (Some ''h.png'')
   \<and> avatarOf (scrapeCommentsAndAvatars (Some annAnn) (Some (Some ''h.png'')) ''Ann'') ''Ann''
       \<noteq> Some (Some ''a1.png'')"
proof -
  have a: "avatarOf (scrapeCommentsAndAvatars (Some annAnn) (Some (Some ''h.png'')) ''Ann'') ''Ann''
       = Some (Some ''h.png'')"
    unfolding avatarOf_scrape
    by (simp add: annAnn_def scanArticle_def ann_articles seedAvatars_def setProp_def
          emptyObject_def truthyProp_def)
  have b: "parsedBy annFirst ''Ann''" "avatarImageOf annFirst = Some ''a1.png''"
    "parsedBy annSecond ''Ann''" "avatarImageOf annSecond = Some ''a2.png''"
    by (simp_all add: parsedBy_def ann_articles)
  from a b show ?thesis by simp
qed



section \<open>Properties of the viewer\<close>

lemma updateOverlayComments_in_range:
  assumes "currentCommentIndex v \<le> length (flatCommentList v)"
  shows "\<exists>v'. updateOverlayComments v = Inr v'
            \<and> currentCommentIndex v' = currentCommentIndex v
            \<and> flatCommentList v' = flatCommentList v"
  using assms by (auto simp: updateOverlayComments_def Let_def)

lemma stepViewer_bounds:
  assumes "currentCommentIndex v \<le> length (flatCommentList v)"
  shows "\<exists>v'. stepViewer s v = Inr v'
            \<and> currentCommentIndex v' \<le> length (flatCommentList v')
            \<and> flatCommentList v' = flatCommentList v"
proof (cases s)
  case (NextComment shouldScroll)
  show ?thesis
  proof (cases "currentCommentIndex v < length (flatCommentList v)")
    case True
    let ?w = "updateCommentCounter
                (v\<lparr>commentsContainer := commentsContainer v
                         @ [CommentElement (flatCommentList v ! currentCommentIndex v)],
                   currentCommentIndex := currentCommentIndex v + 1\<rparr>)"
    have "currentCommentIndex ?w \<le> length (flatCommentList ?w)"
      using True by (simp add: updateCommentCounter_def)
    from updateOverlayComments_in_range [OF this] obtain v' where
      "updateOverlayComments ?w = Inr v'" "currentCommentIndex v' = currentCommentIndex ?w"
      "flatCommentList v' = flatCommentList ?w" by blast
    with True NextComment show ?thesis
      by (simp add: handleNextComment_def Let_def updateCommentCounter_def)
  next
    case False
    with assms NextComment show ?thesis
      by (simp add: handleNextComment_def)
  qed
next
  case PreviousComment
  show ?thesis
  proof (cases "currentCommentIndex v > 0")
    case True
    let ?w = "updateCommentCounter
                (v\<lparr>commentsContainer := butlast (commentsContainer v),
                   currentCommentIndex := currentCommentIndex v - 1\<rparr>)"
    have "currentCommentIndex ?w \<le> length (flatCommentList ?w)"
      using assms by (simp add: updateCommentCounter_def)
    from updateOverlayComments_in_range [OF this] obtain v' where
      "updateOverlayComments ?w = Inr v'" "currentCommentIndex v' = currentCommentIndex ?w"
      "flatCommentList v' = flatCommentList ?w" by blast
    with True assms PreviousComment show ?thesis
      by (simp add: handlePreviousComment_def Let_def updateCommentCounter_def)
  next
    case False
    with assms PreviousComment show ?thesis
      by (simp add: handlePreviousComment_def)
  qed
qed

lemma runSteps_bounds:
  "currentCommentIndex v \<le> length (flatCommentList v) \<Longrightarrow>
     \<exists>v'. runSteps steps v = Inr v'
          \<and> currentCommentIndex v' \<le> length (flatCommentList v')
          \<and> flatCommentList v' = flatCommentList v"
proof (induction steps arbitrary: v)
  case Nil
  then show ?case by simp
next
  case (Cons s ss)
  from stepViewer_bounds [OF Cons.prems, of s] obtain w where
    w: "stepViewer s v = Inr w" "currentCommentIndex w \<le> length (flatCommentList w)"
       "flatCommentList w = flatCommentList v" by blast
  from Cons.IH [OF w(2)] w show ?case by auto
qed

text \<open>
  Claim C10. From the page as loaded, every run of forward and backward steps ends
  without an exception in a state whose flattened list is still that of the post
  and whose index lies between 0 and the length of that list. A forward step at an
  index equal to the length, and a backward step at index 0, return the state as it
  was: index, rendered comments, overlay and counter.
\<close>

theorem viewer_stepping_bounds:
  "(\<exists>v. runSteps steps (loaded postComments container overlay counter) = Inr v
         \<and> flatCommentList v = flattenComments postComments 0
         \<and> 0 \<le> currentCommentIndex v
         \<and> currentCommentIndex v \<le> length (flattenComments postComments 0))
   \<and> (currentCommentIndex w = length (flatCommentList w) \<longrightarrow> handleNextComment shouldScroll w = Inr w)
   \<and> (currentCommentIndex w = 0 \<longrightarrow> handlePreviousComment w = Inr w)"
proof (intro conjI impI)
  have "currentCommentIndex (loaded postComments container overlay counter)
          \<le> length (flatCommentList (loaded postComments container overlay counter))"
    by (simp add: loaded_def)
  from runSteps_bounds [OF this, of steps]
  show "\<exists>v. runSteps steps (loaded postComments container overlay counter) = Inr v
         \<and> flatCommentList v = flattenComments postComments 0
         \<and> 0 \<le> currentCommentIndex v
         \<and> currentCommentIndex v \<le> length (flattenComments postComments 0)"
    by (auto simp: loaded_def)
next
  assume "currentCommentIndex w = length (flatCommentList w)"
  then show "handleNextComment shouldScroll w = Inr w"
    by (simp add: handleNextComment_def)
next
  assume "currentCommentIndex w = 0"
  then show "handlePreviousComment w = Inr w"
    by (simp add: handlePreviousComment_def)
qed

text \<open>
  A witness for C10: the one-comment post, at index 1 for the forward step and as
  loaded for the backward step.
\<close>

theorem viewer_stepping_bounds_witness:
  "(currentCommentIndex \<lparr>flatCommentList = flattenComments [Comment ''A'' ''a'' None] 0,
        currentCommentIndex = 1, commentsContainer = [], overlayCommentsContainer = [],
        commentCounter = 1\<rparr>
      = length (flatCommentList \<lparr>flatCommentList = flattenComments [Comment ''A'' ''a'' None] 0,
        currentCommentIndex = 1, commentsContainer = [], overlayCommentsContainer = [],
        commentCounter = 1\<rparr>)
     \<and> handleNextComment True \<lparr>flatCommentList = flattenComments [Comment ''A'' ''a'' None] 0,
        currentCommentIndex = 1, commentsContainer = [], overlayCommentsContainer = [],
        commentCounter = 1\<rparr>
      = Inr \<lparr>flatCommentList = flattenComments [Comment ''A'' ''a'' None] 0,
        currentCommentIndex = 1, commentsContainer = [], overlayCommentsContainer = [],
        commentCounter = 1\<rparr>)
   \<and> (currentCommentIndex (loaded [Comment ''A'' ''a'' None] [] [] 0) = 0
     \<and> handlePreviousComment (loaded [Comment ''A'' ''a'' None] [] [] 0)
         = Inr (loaded [Comment ''A'' ''a'' None] [] [] 0))"
proof -
  let ?w = "\<lparr>flatCommentList = flattenComments [Comment ''A'' ''a'' None] 0,
        currentCommentIndex = 1, commentsContainer = [], overlayCommentsContainer = [],
        commentCounter = 1\<rparr>"
  let ?l = "loaded [Comment ''A'' ''a'' None] [] [] 0"
  have h1: "currentCommentIndex ?w = length (flatCommentList ?w)" by simp
  have h2: "currentCommentIndex ?l = 0" by (simp add: loaded_def)
  note r1 = viewer_stepping_bounds [of _ _ _ _ _ ?w True, THEN conjunct2, THEN conjunct1, THEN mp, OF h1]
  note r2 = viewer_stepping_bounds [of _ _ _ _ _ ?l, THEN conjunct2, THEN conjunct2, THEN mp, OF h2]
  show ?thesis
    by (intro conjI) (rule h1 h2 r1 r2)+
qed

end
